theory Spec2Isabelle
  imports Complex_Main
begin

section \<open>Python values shared by both modules\<close>

text \<open>
  The exceptions the two source files raise, catch or let through. The last two are
  the ones that derive from \<open>BaseException\<close> only, so \<open>except Exception\<close> does not
  catch them.
\<close>

datatype py_error =
    ZeroDivisionError
  | IndexError
  | KeyError
  | RuntimeError
  | ValueError
  | TypeError
  | OtherException string
  | KeyboardInterrupt
  | SystemExit

text \<open>\<open>isinstance(e, Exception)\<close>.\<close>

fun is_Exception :: "py_error \<Rightarrow> bool" where
  "is_Exception KeyboardInterrupt = False"
| "is_Exception SystemExit = False"
| "is_Exception _ = True"

text \<open>
  A call either returns or raises; in both cases the state it has built up so far is
  what the caller finds afterwards.
\<close>

datatype 's outcome = Returns 's | Raises py_error 's

text \<open>Python's \<open>a % b\<close> on integers: floored, and an error for a zero divisor.\<close>

definition py_mod :: "int \<Rightarrow> int \<Rightarrow> py_error + int" where
  "py_mod a b = (if b = 0 then Inl ZeroDivisionError else Inr (a mod b))"


section \<open>The list layout: \<open>lisp/layouts/list_layout/layout.py\<close>\<close>

datatype EndListBehavior = Stop | Restart

text \<open>
  Modelled from the spec: the class \<open>Cue\<close> (\<open>lisp.cues.cue\<close>) is not among the
  sources. The layout reads a cue's \<open>index\<close> and compares cues with \<open>==\<close>, which for
  these objects is identity; \<open>cue_id\<close> stands for the identity.
\<close>

record cue =
  cue_id :: nat
  index :: int

text \<open>
  What the layout does to its collaborators, in order: \<open>cue.execute(action)\<close> (the
  action is \<open>None\<close> when \<open>execute()\<close> is called without one) and
  \<open>self.cue_executed.emit(cue)\<close>. The type of actions (\<open>CueAction\<close>) is a parameter.
\<close>

datatype 'act event = Execute cue "'act option" | CueExecuted cue

text \<open>
  Modelled from the spec: \<open>CueTreeModel\<close> and \<open>CueListView\<close> are not among the
  sources. \<open>model_adapter\<close> is the ordered sequence of cues; of the view the layout uses
  \<open>topLevelItemCount()\<close> (\<open>item_count\<close>) and the current item, kept here as its row
  (\<open>None\<close> when the view has no current item).
\<close>

record 'act list_layout =
  model_adapter :: "cue list"
  item_count :: nat
  current_row :: "nat option"
  end_list :: EndListBehavior
  auto_continue :: bool
  trace :: "'act event list"

text \<open>The view shows one top-level item per cue of the model.\<close>

definition view_synced :: "'act list_layout \<Rightarrow> bool" where
  "view_synced s = (item_count s = length (model_adapter s))"

text \<open>
  \<open>current_index\<close>: \<open>self.listView.currentIndex().row()\<close>, which is \<open>-1\<close> when there is
  no current item.
\<close>

definition current_index :: "'act list_layout \<Rightarrow> int" where
  "current_index s = (case current_row s of None \<Rightarrow> - 1 | Some r \<Rightarrow> int r)"

text \<open>
  Modelled from the spec: \<open>current_cue\<close> is inherited from \<open>CueLayout\<close>, which is not
  among the sources. It is the cue at \<open>current_index\<close>, if any.
\<close>

definition current_cue :: "'act list_layout \<Rightarrow> cue option" where
  "current_cue s =
     (let i = current_index s
      in if 0 \<le> i \<and> i < int (length (model_adapter s))
         then Some (model_adapter s ! nat i) else None)"


text \<open>
  \<^verbatim>\<open>
  def set_current_index(self, index):
      if self._end_list == EndListBehavior.Restart:
          index %= len(self.model_adapter)
      if 0 <= index < self.listView.topLevelItemCount():
          next_item = self.listView.topLevelItem(index)
          self.listView.setCurrentItem(next_item)
  \<close>
\<close>

definition set_current_index :: "'act list_layout \<Rightarrow> int \<Rightarrow> 'act list_layout outcome" where
  "set_current_index s i =
     (case (if end_list s = Restart then py_mod i (int (length (model_adapter s))) else Inr i) of
        Inl e \<Rightarrow> Raises e s
      | Inr j \<Rightarrow>
          if 0 \<le> j \<and> j < int (item_count s)
          then Returns (s\<lparr>current_row := Some (nat j)\<rparr>)
          else Returns s)"

text \<open>
  \<^verbatim>\<open>
  def go(self, action=CueAction.Default, advance=1):
      current_cue = self.current_cue()
      if current_cue is not None:
          current_cue.execute(action)
          self.cue_executed.emit(current_cue)
          if self._auto_continue:
              self.set_current_index(self.current_index() + advance)
  \<close>
\<close>

definition go :: "'act list_layout \<Rightarrow> 'act \<Rightarrow> int \<Rightarrow> 'act list_layout outcome" where
  "go s action advance =
     (case current_cue s of
        None \<Rightarrow> Returns s
      | Some c \<Rightarrow>
          let s1 = s\<lparr>trace := trace s @ [Execute c (Some action)]\<rparr>;
              s2 = s1\<lparr>trace := trace s1 @ [CueExecuted c]\<rparr>
          in if auto_continue s2
             then set_current_index s2 (current_index s2 + advance)
             else Returns s2)"



text \<open>A show of three cues, the last one selected: the spec's sequencing example.\<close>

definition three_cues :: "cue list" where
  "three_cues = [\<lparr>cue_id = 10, index = 0\<rparr>, \<lparr>cue_id = 11, index = 1\<rparr>, \<lparr>cue_id = 12, index = 2\<rparr>]"

definition show3 :: "EndListBehavior \<Rightarrow> bool \<Rightarrow> unit list_layout" where
  "show3 e a = \<lparr>model_adapter = three_cues, item_count = 3, current_row = Some 2,
                end_list = e, auto_continue = a, trace = []\<rparr>"

definition empty_show :: "EndListBehavior \<Rightarrow> unit list_layout" where
  "empty_show e = \<lparr>model_adapter = [], item_count = 0, current_row = None,
                   end_list = e, auto_continue = True, trace = []\<rparr>"


section \<open>The decorators: \<open>lisp/core/decorators.py\<close>\<close>

text \<open>
  A call of a function: the value it returns, or the exception it raises, with the
  state it leaves. Python's \<open>None\<close> is the value \<open>None\<close> of an option type.
\<close>

datatype ('r, 's) result = Return 'r 's | Raise py_error 's

text \<open>
  \<open>try: ... finally: ...\<close>: the \<open>finally\<close> block runs on the state the \<open>try\<close> block
  left; when it raises, its exception replaces the outcome of the \<open>try\<close> block.
\<close>

definition try_finally :: "('r, 's) result \<Rightarrow> ('s \<Rightarrow> (unit, 's) result) \<Rightarrow> ('r, 's) result" where
  "try_finally tried fin =
     (case tried of
        Return v s \<Rightarrow> (case fin s of Return _ s' \<Rightarrow> Return v s' | Raise e s' \<Rightarrow> Raise e s')
      | Raise e s \<Rightarrow> (case fin s of Return _ s' \<Rightarrow> Raise e s' | Raise e' s' \<Rightarrow> Raise e' s'))"

subsection \<open>\<open>threading.RLock\<close>\<close>

type_synonym thread = nat

text \<open>
  Python's re-entrant lock, as its library documents it: the owning thread and the
  recursion level. The lock is free when the level is zero.
\<close>

record rlock =
  owner :: "thread option"
  level :: nat

definition RLock :: rlock where
  "RLock = \<lparr>owner = None, level = 0\<rparr>"

definition rlock_wf :: "rlock \<Rightarrow> bool" where
  "rlock_wf l = ((owner l = None) = (level l = 0))"

text \<open>
  \<open>lock.acquire(blocking, timeout)\<close> called by thread \<open>t\<close>. A timeout with
  \<open>blocking=False\<close>, or a negative timeout other than \<open>-1\<close>, is a \<open>ValueError\<close>. The
  owner re-enters, a free lock is taken. The call is modelled on its own: the other
  threads do not run meanwhile, so a lock that another thread holds stays held; a
  non-blocking call or a bounded wait then returns \<open>False\<close>, and an unbounded wait
  never returns, which is the value \<open>None\<close>.
\<close>

definition acquire :: "thread \<Rightarrow> bool \<Rightarrow> real \<Rightarrow> rlock \<Rightarrow> (bool, rlock) result option" where
  "acquire t blocking timeout l =
     (if \<not> blocking \<and> timeout \<noteq> - 1 then Some (Raise ValueError l)
      else if timeout < 0 \<and> timeout \<noteq> - 1 then Some (Raise ValueError l)
      else if 0 < level l \<and> owner l = Some t then Some (Return True (l\<lparr>level := level l + 1\<rparr>))
      else if level l = 0 then Some (Return True (l\<lparr>owner := Some t, level := 1\<rparr>))
      else if blocking \<and> timeout = - 1 then None
      else Some (Return False l))"

text \<open>
  \<open>lock.release()\<close> called by thread \<open>t\<close>: a \<open>RuntimeError\<close> unless \<open>t\<close> owns the
  lock; the lock is free again when the level reaches zero.
\<close>

definition release :: "thread \<Rightarrow> rlock \<Rightarrow> (unit, rlock) result" where
  "release t l =
     (if level l = 0 \<or> owner l \<noteq> Some t then Raise RuntimeError l
      else if level l = 1 then Return () (l\<lparr>owner := None, level := 0\<rparr>)
      else Return () (l\<lparr>level := level l - 1\<rparr>))"

subsection \<open>\<open>synchronized_function\<close> and \<open>synchronized_method\<close>\<close>

text \<open>
  The \<open>finally\<close> block of both wrappers:
  \<^verbatim>\<open>
          try:
              lock.release()
          except RuntimeError:
              pass
  \<close>
\<close>

definition release_or_pass :: "thread \<Rightarrow> rlock \<Rightarrow> (unit, rlock) result" where
  "release_or_pass t l =
     (case release t l of
        Return u l' \<Rightarrow> Return u l'
      | Raise e l' \<Rightarrow> if e = RuntimeError then Return () l' else Raise e l')"

text \<open>
  The wrapped body: a function of the call's arguments on the state \<open>'w\<close> of the
  program outside the lock.
\<close>

type_synonym ('a, 'r, 'w) body = "'a \<Rightarrow> 'w \<Rightarrow> ('r option, 'w) result"

text \<open>
  The \<open>try\<close> block of both wrappers, given what \<open>acquire\<close> did:
  \<^verbatim>\<open>
          if lock.acquire(blocking=blocking, timeout=timeout):
              return target(*args, **kwargs)
          else:
              return
  \<close>
\<close>

definition call_if_acquired ::
  "('a, 'r, 'w) body \<Rightarrow> 'a \<Rightarrow> 'w \<Rightarrow> (bool, rlock) result \<Rightarrow> ('r option, rlock \<times> 'w) result" where
  "call_if_acquired target args w acquired =
     (case acquired of
        Raise e l \<Rightarrow> Raise e (l, w)
      | Return got l \<Rightarrow>
          if got
          then (case target args w of
                  Return r w' \<Rightarrow> Return r (l, w')
                | Raise e w' \<Rightarrow> Raise e (l, w'))
          else Return None (l, w))"

definition release_in_state :: "thread \<Rightarrow> rlock \<times> 'w \<Rightarrow> (unit, rlock \<times> 'w) result" where
  "release_in_state t st =
     (case st of (l, w) \<Rightarrow>
        (case release_or_pass t l of
           Return u l' \<Rightarrow> Return u (l', w)
         | Raise e l' \<Rightarrow> Raise e (l', w)))"

text \<open>
  \<^verbatim>\<open>
      target.__lock__ = RLock()

      @wraps(target)
      def synchronized(*args, **kwargs):
          try:
              if target.__lock__.acquire(blocking=blocking, timeout=timeout):
                  return target(*args, **kwargs)
              else:
                  return
          finally:
              try:
                  target.__lock__.release()
              except RuntimeError:
                  pass
  \<close>
  called by thread \<open>t\<close> on the state of \<open>target.__lock__\<close> and of the program.
\<close>

definition synchronized ::
  "('a, 'r, 'w) body \<Rightarrow> bool \<Rightarrow> real \<Rightarrow> thread \<Rightarrow> 'a \<Rightarrow> rlock \<times> 'w
     \<Rightarrow> ('r option, rlock \<times> 'w) result option" where
  "synchronized target blocking timeout t args st =
     (case st of (l, w) \<Rightarrow>
        (case acquire t blocking timeout l of
           None \<Rightarrow> None
         | Some acquired \<Rightarrow>
             Some (try_finally (call_if_acquired target args w acquired) (release_in_state t))))"

text \<open>
  The receiver of a synchronized method: its attributes that hold locks, and the rest
  of the program's state. \<open>meta_locked\<close> is the module's \<open>_synchronized_meta_lock\<close>, a
  plain lock that is held only while a wrapper looks the lock up.
\<close>

record 'w receiver =
  meta_locked :: bool
  attrs :: "string \<rightharpoonup> rlock"
  world :: 'w

text \<open>
  \<^verbatim>\<open>
      if not isinstance(lock_name, str):
          # generate a lock_name like "__method_name_lock__"
          lock_name = '__' + target.__name__ + '_lock__'
  \<close>
  \<open>lock_name\<close> is \<open>Some\<close> of a string, or \<open>None\<close> for any value that is not a string.
\<close>

definition method_lock_name :: "string option \<Rightarrow> string \<Rightarrow> string" where
  "method_lock_name lock_name target_name =
     (case lock_name of Some n \<Rightarrow> n | None \<Rightarrow> ''__'' @ target_name @ ''_lock__'')"

text \<open>
  \<^verbatim>\<open>
      def wrapped(self, *args, **kwargs):
          with _synchronized_meta_lock:
              lock = getattr(self, lock_name, None)
              # If the lock is not defined, then define it
              if lock is None:
                  lock = RLock()
                  setattr(self, lock_name, lock)
          try:
              if lock.acquire(blocking=blocking, timeout=timeout):
                  return target(self, *args, **kwargs)
              else:
                  return
          finally:
              try:
                  lock.release()
              except RuntimeError:
                  pass
  \<close>
  A meta-lock that another thread holds for ever is a call that never returns.
\<close>

definition synchronized_method_wrapped ::
  "('a, 'r, 'w) body \<Rightarrow> string \<Rightarrow> string option \<Rightarrow> bool \<Rightarrow> real \<Rightarrow> thread \<Rightarrow> 'a
     \<Rightarrow> 'w receiver \<Rightarrow> ('r option, 'w receiver) result option" where
  "synchronized_method_wrapped target target_name lock_name blocking timeout t args self =
     (if meta_locked self then None
      else
        let name = method_lock_name lock_name target_name;
            lock = (case attrs self name of None \<Rightarrow> RLock | Some l \<Rightarrow> l)
        in (case synchronized target blocking timeout t args (lock, world self) of
              None \<Rightarrow> None
            | Some (Return r (l', w')) \<Rightarrow>
                Some (Return r (self\<lparr>attrs := (attrs self)(name \<mapsto> l'), world := w'\<rparr>))
            | Some (Raise e (l', w')) \<Rightarrow>
                Some (Raise e (self\<lparr>attrs := (attrs self)(name \<mapsto> l'), world := w'\<rparr>))))"

text \<open>
  The arguments with which \<open>acquire\<close> raises no \<open>ValueError\<close>: no timeout on a
  non-blocking call, and no negative timeout but \<open>-1\<close>.
\<close>

definition valid_acquire_arguments :: "bool \<Rightarrow> real \<Rightarrow> bool" where
  "valid_acquire_arguments blocking timeout =
     (\<not> (\<not> blocking \<and> timeout \<noteq> - 1) \<and> \<not> (timeout < 0 \<and> timeout \<noteq> - 1))"

text \<open>
  For the examples: a body that raises after it has left a mark on the program's
  state, a lock that thread 2 holds, and a receiver that has no lock yet.
\<close>

definition raising_body :: "unit \<Rightarrow> nat \<Rightarrow> (nat option, nat) result" where
  "raising_body u calls = Raise (OtherException ''boom'') (calls + 1)"

definition held_by_other :: rlock where
  "held_by_other = \<lparr>owner = Some 2, level = 1\<rparr>"

definition fresh_receiver :: "nat receiver" where
  "fresh_receiver = \<lparr>meta_locked = False, attrs = Map.empty, world = 0\<rparr>"

text \<open>
  Calls of one synchronized function by several threads, with \<open>blocking=True\<close> and
  \<open>timeout=-1\<close>, taken apart at the two places where a call touches the lock. At
  \<open>Enter t\<close> the call of thread \<open>t\<close> gets \<open>True\<close> from \<open>acquire\<close> and its body begins;
  at \<open>Leave t\<close> the body of the innermost call of \<open>t\<close> has ended, by \<open>return\<close> or by
  an exception, and the \<open>finally\<close> block releases.
\<close>

datatype lock_event = Enter thread | Leave thread

text \<open>The lock of the function, and for each thread the number of bodies it is inside.\<close>

record threads =
  shared_lock :: rlock
  inside :: "thread \<Rightarrow> nat"

text \<open>
  One step; \<open>None\<close> when the thread cannot take it now: at \<open>Enter\<close>, \<open>acquire\<close> is
  still waiting; at \<open>Leave\<close>, the thread is in no body.
\<close>

definition step :: "lock_event \<Rightarrow> threads \<Rightarrow> threads option" where
  "step ev s =
     (case ev of
        Enter t \<Rightarrow>
          (case acquire t True (- 1) (shared_lock s) of
             None \<Rightarrow> None
           | Some (Raise e l') \<Rightarrow> None
           | Some (Return got l') \<Rightarrow>
               if got then Some (s\<lparr>shared_lock := l', inside := (inside s)(t := inside s t + 1)\<rparr>)
               else None)
      | Leave t \<Rightarrow>
          if inside s t = 0 then None
          else (case release_or_pass t (shared_lock s) of
                  Raise e l' \<Rightarrow> None
                | Return u l' \<Rightarrow>
                    Some (s\<lparr>shared_lock := l', inside := (inside s)(t := inside s t - 1)\<rparr>)))"

text \<open>The steps of a schedule, one after the other; \<open>None\<close> when one of them cannot be taken.\<close>

fun run :: "lock_event list \<Rightarrow> threads \<Rightarrow> threads option" where
  "run [] s = Some s"
| "run (ev # evs) s = (case step ev s of None \<Rightarrow> None | Some s' \<Rightarrow> run evs s')"

text \<open>The function has just been decorated: \<open>target.__lock__ = RLock()\<close>, no call yet.\<close>

definition no_calls :: threads where
  "no_calls = \<lparr>shared_lock = RLock, inside = (\<lambda>t. 0)\<rparr>"

subsection \<open>\<open>suppress_exceptions\<close>\<close>

text \<open>
  \<^verbatim>\<open>
      def wrapped(*args, **kwargs):
          try:
              return target(*args, **kwargs)
          except Exception:
              logging.warning('Exception suppressed:\n' + traceback.format_exc())
  \<close>
  The state is the log of warnings (one entry per logged exception) and the state of
  the program.
\<close>

definition suppress_exceptions_wrapped ::
  "('a, 'r, 'w) body \<Rightarrow> 'a \<Rightarrow> py_error list \<times> 'w \<Rightarrow> ('r option, py_error list \<times> 'w) result" where
  "suppress_exceptions_wrapped target args st =
     (case st of (warnings, w) \<Rightarrow>
        (case target args w of
           Return r w' \<Rightarrow> Return r (warnings, w')
         | Raise e w' \<Rightarrow>
             if is_Exception e then Return None (warnings @ [e], w')
             else Raise e (warnings, w')))"

text \<open>
  What a call of the decorator itself gives: the wrapper around a target, or
  \<open>functools.partial(suppress_exceptions, **keywords)\<close>, which waits for the target.
\<close>

datatype 'f decorated = Wrapper 'f | Partial "(string \<times> bool) list"

text \<open>
  \<^verbatim>\<open>
  def suppress_exceptions(target=None, *, log=True):
      if target is None:
          return partial(suppress_exceptions, print_exc=log)
      @wraps(target)
      def wrapped(*args, **kwargs): ...
      return wrapped
  \<close>
  A call binds its keyword arguments first: the only keyword the signature has is
  \<open>log\<close>, and any other keyword is a \<open>TypeError\<close>.
\<close>

definition suppress_exceptions :: "'f option \<Rightarrow> (string \<times> bool) list \<Rightarrow> py_error + 'f decorated" where
  "suppress_exceptions target keywords =
     (if \<exists>k \<in> set (map fst keywords). k \<noteq> ''log'' then Inl TypeError
      else
        let log = (case map_of keywords ''log'' of None \<Rightarrow> True | Some b \<Rightarrow> b)
        in (case target of
              None \<Rightarrow> Inr (Partial [(''print_exc'', log)])
            | Some f \<Rightarrow> Inr (Wrapper f)))"

text \<open>
  \<open>@suppress_exceptions(log=...)\<close> above a function \<open>f\<close>: the decorator is called with
  the keywords alone, and what it returns is called with \<open>f\<close>.
\<close>

definition decorate_with_keywords :: "(string \<times> bool) list \<Rightarrow> 'f \<Rightarrow> py_error + 'f decorated" where
  "decorate_with_keywords keywords f =
     (case suppress_exceptions (None :: 'f option) keywords of
        Inl e \<Rightarrow> Inl e
      | Inr (Partial kws) \<Rightarrow> suppress_exceptions (Some f) kws
      | Inr (Wrapper g) \<Rightarrow> Inl TypeError)"

subsection \<open>\<open>memoize\<close>\<close>

text \<open>
  \<^verbatim>\<open>
      cache = obj.cache = {}

      @wraps(obj)
      def memoizer(*args, **kwargs):
          key = str(args) + str(kwargs)
          if key not in cache:
              cache[key] = obj(*args, **kwargs)
          return cache[key]
  \<close>
  \<open>str\<close> of the positional and of the keyword arguments are parameters. The state is
  the cache and the state of the program.
\<close>

type_synonym 'r cache = "string \<rightharpoonup> 'r"

definition memoizer ::
  "('a \<Rightarrow> string) \<Rightarrow> ('k \<Rightarrow> string) \<Rightarrow> ('a \<Rightarrow> 'k \<Rightarrow> 'w \<Rightarrow> ('r, 'w) result)
     \<Rightarrow> 'a \<Rightarrow> 'k \<Rightarrow> 'r cache \<times> 'w \<Rightarrow> ('r, 'r cache \<times> 'w) result" where
  "memoizer str_args str_kwargs obj args kwargs st =
     (case st of (cache, w) \<Rightarrow>
        let key = str_args args @ str_kwargs kwargs
        in (case cache key of
              None \<Rightarrow>
                (case obj args kwargs w of
                   Raise e w' \<Rightarrow> Raise e (cache, w')
                 | Return r w' \<Rightarrow> Return r (cache(key \<mapsto> r), w'))
            | Some v \<Rightarrow> Return v (cache, w)))"

text \<open>The key of a call.\<close>

definition memo_key :: "('a \<Rightarrow> string) \<Rightarrow> ('k \<Rightarrow> string) \<Rightarrow> 'a \<Rightarrow> 'k \<Rightarrow> string" where
  "memo_key str_args str_kwargs args kwargs = str_args args @ str_kwargs kwargs"

text \<open>
  Calls made one after the other on the same memoized callable; an exception that a
  call raises is the caller's business, the cache and the program go on as it left
  them.
\<close>

fun memo_calls ::
  "('a \<Rightarrow> string) \<Rightarrow> ('k \<Rightarrow> string) \<Rightarrow> ('a \<Rightarrow> 'k \<Rightarrow> 'w \<Rightarrow> ('r, 'w) result)
     \<Rightarrow> ('a \<times> 'k) list \<Rightarrow> 'r cache \<times> 'w \<Rightarrow> 'r cache \<times> 'w" where
  "memo_calls str_args str_kwargs obj [] st = st"
| "memo_calls str_args str_kwargs obj ((args, kwargs) # calls) st =
     (case memoizer str_args str_kwargs obj args kwargs st of
        Return _ st' \<Rightarrow> memo_calls str_args str_kwargs obj calls st'
      | Raise _ st' \<Rightarrow> memo_calls str_args str_kwargs obj calls st')"

text \<open>
  Python's \<open>str\<close> of a tuple of integers and of an empty dictionary, for the example
  \<open>f(1, 2)\<close> and \<open>f(2, 1)\<close>: \<open>str((1, 2)) = '(1, 2)'\<close>, \<open>str((1,)) = '(1,)'\<close>,
  \<open>str(()) = '()'\<close> and \<open>str({}) = '{}'\<close>.
\<close>

definition digit_char :: "nat \<Rightarrow> char" where
  "digit_char d = ''0123456789'' ! d"

fun str_nat :: "nat \<Rightarrow> string" where
  "str_nat n = (if n < 10 then [digit_char n] else str_nat (n div 10) @ [digit_char (n mod 10)])"

definition str_int :: "int \<Rightarrow> string" where
  "str_int i = (if i < 0 then CHR ''-'' # str_nat (nat (- i)) else str_nat (nat i))"

fun join_comma :: "string list \<Rightarrow> string" where
  "join_comma [] = []"
| "join_comma [x] = x"
| "join_comma (x # y # ys) = x @ '', '' @ join_comma (y # ys)"

definition str_int_tuple :: "int list \<Rightarrow> string" where
  "str_int_tuple xs =
     (case xs of
        [x] \<Rightarrow> ''('' @ str_int x @ '',)''
      | _ \<Rightarrow> ''('' @ join_comma (map str_int xs) @ '')'')"

definition str_empty_dict :: "unit \<Rightarrow> string" where
  "str_empty_dict u = ''{}''"

text \<open>A body for the example: it adds its arguments and counts its own calls.\<close>

definition counting_sum :: "int list \<Rightarrow> unit \<Rightarrow> nat \<Rightarrow> (int, nat) result" where
  "counting_sum xs u calls = Return (sum_list xs) (calls + 1)"

subsection \<open>\<open>typechecked\<close>\<close>

text \<open>
  \<open>target.__annotations__.get(name)\<close> is a type, or something that is not a type
  (\<open>None\<close> when the name has no annotation).
\<close>

datatype 'ty annotation = IsType 'ty | NotAType

text \<open>
  What the wrapper reads of its target: \<open>__code__.co_varnames\<close> and
  \<open>__annotations__\<close>. \<open>co_argcount\<close> and \<open>co_kwonlyargcount\<close> say which of the names
  are parameters: in \<open>co_varnames\<close> the positional parameters come first, then the
  keyword-only ones, then the names of \<open>*args\<close> and \<open>**kwargs\<close>, then the locals.
\<close>

record 'ty code =
  co_varnames :: "string list"
  co_argcount :: nat
  co_kwonlyargcount :: nat
  annotations :: "string \<rightharpoonup> 'ty annotation"

text \<open>
  \<^verbatim>\<open>
          for index, name in enumerate(target.__code__.co_varnames):
              annotation = target.__annotations__.get(name)
              # Only check if annotation exists and a type
              if isinstance(annotation, type):
                  # First len(args) are positional, after that keywords
                  if index < len(args):
                      value = args[index]
                  elif name in kwargs:
                      value = kwargs[name]
                  else:
                      continue
                  if not isinstance(value, annotation):
                      raise TypeError('Incorrect type for "{0}"'.format(name))
  \<close>
  The loop, over the pairs that \<open>enumerate\<close> gives; \<open>isinstance\<close> is a parameter.
  \<open>None\<close>: the loop ends without raising.
\<close>

fun check_arguments ::
  "('v \<Rightarrow> 'ty \<Rightarrow> bool) \<Rightarrow> (string \<rightharpoonup> 'ty annotation) \<Rightarrow> 'v list \<Rightarrow> (string \<rightharpoonup> 'v)
     \<Rightarrow> (nat \<times> string) list \<Rightarrow> py_error option" where
  "check_arguments isinst ann args kwargs [] = None"
| "check_arguments isinst ann args kwargs ((idx, name) # rest) =
     (case ann name of
        Some (IsType ty) \<Rightarrow>
          (if idx < length args
           then (if \<not> isinst (args ! idx) ty then Some TypeError
                 else check_arguments isinst ann args kwargs rest)
           else (case kwargs name of
                   Some v \<Rightarrow>
                     if \<not> isinst v ty then Some TypeError
                     else check_arguments isinst ann args kwargs rest
                 | None \<Rightarrow> check_arguments isinst ann args kwargs rest))
      | _ \<Rightarrow> check_arguments isinst ann args kwargs rest)"

text \<open>
  \<^verbatim>\<open>
      def wrapped(*args, **kwargs):
          for index, name in enumerate(target.__code__.co_varnames): ...
          return target(*args, **kwargs)
  \<close>
\<close>

definition typechecked_wrapped ::
  "('v \<Rightarrow> 'ty \<Rightarrow> bool) \<Rightarrow> 'ty code \<Rightarrow> ('v list \<Rightarrow> (string \<rightharpoonup> 'v) \<Rightarrow> 'w \<Rightarrow> ('r, 'w) result)
     \<Rightarrow> 'v list \<Rightarrow> (string \<rightharpoonup> 'v) \<Rightarrow> 'w \<Rightarrow> ('r, 'w) result" where
  "typechecked_wrapped isinst c target args kwargs w =
     (case check_arguments isinst (annotations c) args kwargs (enumerate 0 (co_varnames c)) of
        Some e \<Rightarrow> Raise e w
      | None \<Rightarrow> target args kwargs w)"

text \<open>
  Python's binding of a call's arguments to the parameter at position \<open>i\<close> of
  \<open>co_varnames\<close>: a positional parameter takes the positional argument at its position
  or else the keyword argument of its name; a keyword-only parameter takes the keyword
  argument of its name and never a positional one.
\<close>

definition bound_argument :: "'ty code \<Rightarrow> 'v list \<Rightarrow> (string \<rightharpoonup> 'v) \<Rightarrow> nat \<Rightarrow> 'v option" where
  "bound_argument c args kwargs i =
     (if i < co_argcount c
      then (if i < length args then Some (args ! i) else kwargs (co_varnames c ! i))
      else if i < co_argcount c + co_kwonlyargcount c then kwargs (co_varnames c ! i)
      else None)"

text \<open>Values and types for the examples: \<open>int\<close> and \<open>str\<close>.\<close>

datatype pyval = PInt int | PStr string

datatype pytype = TInt | TStr

fun isinstance :: "pyval \<Rightarrow> pytype \<Rightarrow> bool" where
  "isinstance (PInt _) TInt = True"
| "isinstance (PStr _) TStr = True"
| "isinstance _ _ = False"

text \<open>\<open>def fn(a: int)\<close>, the spec's example.\<close>

definition fn_code :: "pytype code" where
  "fn_code = \<lparr>co_varnames = [''a''], co_argcount = 1, co_kwonlyargcount = 0,
              annotations = [''a'' \<mapsto> IsType TInt]\<rparr>"

text \<open>\<open>def f(a: int, *rest, b: str)\<close>: \<open>co_varnames\<close> is \<open>('a', 'b', 'rest')\<close>.\<close>

definition kwonly_code :: "pytype code" where
  "kwonly_code = \<lparr>co_varnames = [''a'', ''b'', ''rest''], co_argcount = 1, co_kwonlyargcount = 1,
                  annotations = [''a'' \<mapsto> IsType TInt, ''b'' \<mapsto> IsType TStr]\<rparr>"

text \<open>A body for the examples: it counts its own calls and returns the count.\<close>

definition counting_body :: "pyval list \<Rightarrow> (string \<rightharpoonup> pyval) \<Rightarrow> nat \<Rightarrow> (nat, nat) result" where
  "counting_body args kwargs calls = Return (calls + 1) (calls + 1)"


section \<open>Selecting a cue by index\<close>

lemma set_current_index_Restart:
  assumes "end_list s = Restart" and "model_adapter s \<noteq> []" and "view_synced s"
  shows "set_current_index s i =
           Returns (s\<lparr>current_row := Some (nat (i mod int (length (model_adapter s))))\<rparr>)"
proof -
  let ?n = "int (length (model_adapter s))"
  from assms(2) have pos: "0 < ?n" by simp
  then have "0 \<le> i mod ?n" and "i mod ?n < ?n" by simp_all
  with assms pos show ?thesis
    by (simp add: set_current_index_def py_mod_def view_synced_def)
qed

lemma set_current_index_Stop:
  assumes "end_list s \<noteq> Restart"
  shows "set_current_index s i =
           (if 0 \<le> i \<and> i < int (item_count s)
            then Returns (s\<lparr>current_row := Some (nat i)\<rparr>) else Returns s)"
  using assms by (simp add: set_current_index_def)

lemma set_current_index_empty:
  assumes "end_list s = Restart" and "model_adapter s = []"
  shows "set_current_index s i = Raises ZeroDivisionError s"
  using assms by (simp add: set_current_index_def py_mod_def)

lemma show3_simps:
  "model_adapter (show3 e a) = three_cues" "item_count (show3 e a) = 3"
  "current_row (show3 e a) = Some 2" "end_list (show3 e a) = e"
  "auto_continue (show3 e a) = a" "trace (show3 e a) = []"
  by (simp_all add: show3_def)

lemma three_cues_length: "length three_cues = 3"
  by (simp add: three_cues_def)

lemma show3_synced: "view_synced (show3 e a)"
  by (simp add: view_synced_def show3_simps three_cues_length)

lemma show3_current_cue: "current_cue (show3 e a) = Some \<lparr>cue_id = 12, index = 2\<rparr>"
  by (simp add: current_cue_def current_index_def show3_simps three_cues_length)
     (simp add: three_cues_def)

lemma current_cue_trace [simp]: "current_cue (s\<lparr>trace := t\<rparr>) = current_cue s"
  by (simp add: current_cue_def current_index_def Let_def)

lemma current_index_trace [simp]: "current_index (s\<lparr>trace := t\<rparr>) = current_index s"
  by (simp add: current_index_def)

lemma view_synced_trace [simp]: "view_synced (s\<lparr>trace := t\<rparr>) = view_synced s"
  by (simp add: view_synced_def)

lemma current_cue_Some_nonempty: "current_cue s = Some c \<Longrightarrow> model_adapter s \<noteq> []"
  by (auto simp: current_cue_def Let_def split: if_splits)

text \<open>
  What \<open>set_current_index\<close> leaves as the selection when the view shows the cues of a
  non-empty model.
\<close>

lemma set_current_index_nonempty:
  assumes "view_synced s" and "model_adapter s \<noteq> []"
  shows "set_current_index s i =
     Returns (s\<lparr>current_row :=
        (if end_list s = Restart then Some (nat (i mod int (length (model_adapter s))))
         else if 0 \<le> i \<and> i < int (length (model_adapter s)) then Some (nat i)
         else current_row s)\<rparr>)"
proof (cases "end_list s = Restart")
  case True
  with assms show ?thesis by (simp add: set_current_index_Restart)
next
  case False
  with assms show ?thesis by (simp add: set_current_index_Stop view_synced_def)
qed

text \<open>
  Claim C9. When the cue list is empty and the end-of-list behaviour is \<open>Restart\<close>,
  \<open>set_current_index\<close> raises a division-by-zero error for every requested index: the
  modulo step divides by the length of the list, which is zero. The request is not
  silently ignored; the layout is as it was when the error leaves the method.
\<close>

theorem set_current_index_empty_list_raises:
  assumes "end_list s = Restart" and "model_adapter s = []"
  shows "set_current_index s i = Raises ZeroDivisionError s"
  using assms by (rule set_current_index_empty)

theorem set_current_index_empty_list_raises_witness:
  "end_list (empty_show Restart) = Restart \<and> model_adapter (empty_show Restart) = []
   \<and> set_current_index (empty_show Restart) 7 = Raises ZeroDivisionError (empty_show Restart)"
proof -
  have e: "end_list (empty_show Restart) = Restart" by (simp add: empty_show_def)
  have m: "model_adapter (empty_show Restart) = []" by (simp add: empty_show_def)
  from set_current_index_empty_list_raises [OF e m, of 7] e m show ?thesis by simp
qed

text \<open>
  Claim C10. When the cue list is not empty and the end-of-list behaviour is
  \<open>Restart\<close>, the index that \<open>set_current_index\<close> selects lies in \<open>[0, length)\<close> for
  every integer input, negative ones included: it is the input modulo the length,
  which is never negative. In particular \<open>set_current_index(-1)\<close> selects the last
  cue.
\<close>

theorem restart_selection_in_range:
  assumes "end_list s = Restart" and "model_adapter s \<noteq> []" and "view_synced s"
  shows "(\<exists>r. set_current_index s i = Returns (s\<lparr>current_row := Some r\<rparr>)
              \<and> r < length (model_adapter s)
              \<and> int r = i mod int (length (model_adapter s)))
         \<and> set_current_index s (- 1)
             = Returns (s\<lparr>current_row := Some (length (model_adapter s) - 1)\<rparr>)"
proof -
  let ?n = "int (length (model_adapter s))"
  from assms(2) have pos: "0 < ?n" by simp
  then have lo: "0 \<le> i mod ?n" and hi: "i mod ?n < ?n" by simp_all
  have sel: "set_current_index s i = Returns (s\<lparr>current_row := Some (nat (i mod ?n))\<rparr>)"
    using assms by (rule set_current_index_Restart)
  from lo hi have "nat (i mod ?n) < length (model_adapter s)" by linarith
  moreover from lo have "int (nat (i mod ?n)) = i mod ?n" by simp
  ultimately have first:
    "\<exists>r. set_current_index s i = Returns (s\<lparr>current_row := Some r\<rparr>)
         \<and> r < length (model_adapter s) \<and> int r = i mod ?n"
    using sel by blast
  have "(- 1) mod ?n = ?n - 1" using pos by (simp add: zmod_minus1)
  then have "nat ((- 1) mod ?n) = length (model_adapter s) - 1" by simp
  moreover have "set_current_index s (- 1)
                   = Returns (s\<lparr>current_row := Some (nat ((- 1) mod ?n))\<rparr>)"
    using assms by (rule set_current_index_Restart)
  ultimately have "set_current_index s (- 1)
                     = Returns (s\<lparr>current_row := Some (length (model_adapter s) - 1)\<rparr>)"
    by simp
  with first show ?thesis by blast
qed

theorem restart_selection_in_range_witness:
  "end_list (show3 Restart False) = Restart \<and> model_adapter (show3 Restart False) \<noteq> []
   \<and> view_synced (show3 Restart False)
   \<and> set_current_index ((show3 Restart False)\<lparr>current_row := Some 0\<rparr>) (- 1)
       = Returns ((show3 Restart False)\<lparr>current_row := Some 2\<rparr>)"
proof -
  let ?X = "(show3 Restart False)\<lparr>current_row := Some 0\<rparr>"
  have e: "end_list ?X = Restart" by (simp add: show3_simps)
  have m: "model_adapter ?X \<noteq> []" by (simp add: show3_simps three_cues_def)
  have v: "view_synced ?X" by (simp add: view_synced_def show3_simps three_cues_length)
  from restart_selection_in_range [OF e m v, of 0]
  have "set_current_index ?X (- 1) = Returns (?X\<lparr>current_row := Some (length (model_adapter ?X) - 1)\<rparr>)"
    by (rule conjunct2)
  then have "set_current_index ?X (- 1) = Returns ((show3 Restart False)\<lparr>current_row := Some 2\<rparr>)"
    by (simp add: show3_simps three_cues_length)
  with e m v show ?thesis by (simp add: show3_synced)
qed

text \<open>
  Claim C1, as the spec states it: for every integer index, under \<open>Restart\<close>
  \<open>set_current_index\<close> reduces the index modulo the length of the list and selects that
  position. On an empty list it does not: the modulo step raises and nothing is
  selected.
\<close>

theorem set_current_index_restart_counterexample:
  "set_current_index (empty_show Restart) 0 = Raises ZeroDivisionError (empty_show Restart)"
  by (rule set_current_index_empty) (simp_all add: empty_show_def)

text \<open>
  Claim C1, amended. For every integer index: if the end-of-list behaviour is
  \<open>Restart\<close> and the list is not empty, \<open>set_current_index\<close> reduces the index modulo
  the length of the list and selects that position; otherwise (\<open>Stop\<close>), an index
  outside \<open>[0, length)\<close> leaves the selection, and the whole layout, unchanged (no
  wrap, no clamp, no error), and an index inside \<open>[0, length)\<close> selects that position.
\<close>

theorem set_current_index_selects:
  assumes "view_synced s"
  shows "(end_list s = Restart \<longrightarrow> model_adapter s \<noteq> [] \<longrightarrow>
            set_current_index s i
              = Returns (s\<lparr>current_row := Some (nat (i mod int (length (model_adapter s))))\<rparr>))
       \<and> (end_list s \<noteq> Restart \<longrightarrow> \<not> (0 \<le> i \<and> i < int (length (model_adapter s))) \<longrightarrow>
            set_current_index s i = Returns s)
       \<and> (end_list s \<noteq> Restart \<longrightarrow> 0 \<le> i \<and> i < int (length (model_adapter s)) \<longrightarrow>
            set_current_index s i = Returns (s\<lparr>current_row := Some (nat i)\<rparr>))"
proof (intro conjI impI)
  assume "end_list s = Restart" and "model_adapter s \<noteq> []"
  then show "set_current_index s i
               = Returns (s\<lparr>current_row := Some (nat (i mod int (length (model_adapter s))))\<rparr>)"
    using assms by (rule set_current_index_Restart)
next
  assume "end_list s \<noteq> Restart" and "\<not> (0 \<le> i \<and> i < int (length (model_adapter s)))"
  with assms show "set_current_index s i = Returns s"
    by (auto simp: set_current_index_Stop view_synced_def)
next
  assume "end_list s \<noteq> Restart" and "0 \<le> i \<and> i < int (length (model_adapter s))"
  with assms show "set_current_index s i = Returns (s\<lparr>current_row := Some (nat i)\<rparr>)"
    by (simp add: set_current_index_Stop view_synced_def)
qed

text \<open>
  The spec's example: three cues, the last one selected. Under \<open>Stop\<close>,
  \<open>set_current_index(5)\<close> leaves the selection at 2 and \<open>set_current_index(1)\<close> moves
  it to 1; under \<open>Restart\<close>, \<open>set_current_index(5)\<close> selects \<open>5 % 3 = 2\<close> and
  \<open>set_current_index(4)\<close> selects 1.
\<close>

theorem set_current_index_selects_witness:
  "view_synced (show3 Stop False) \<and> view_synced (show3 Restart False)
   \<and> set_current_index (show3 Stop False) 5 = Returns (show3 Stop False)
   \<and> set_current_index (show3 Stop False) 1 = Returns ((show3 Stop False)\<lparr>current_row := Some 1\<rparr>)
   \<and> set_current_index (show3 Restart False) 5 = Returns (show3 Restart False)
   \<and> set_current_index (show3 Restart False) 4
       = Returns ((show3 Restart False)\<lparr>current_row := Some 1\<rparr>)"
proof -
  note inst_stop = set_current_index_selects [OF show3_synced, of Stop False]
  note inst_restart = set_current_index_selects [OF show3_synced, of Restart False]
  have "set_current_index (show3 Stop False) 5 = Returns (show3 Stop False)"
    using inst_stop [of 5] by (simp add: show3_simps three_cues_length)
  moreover have "set_current_index (show3 Stop False) 1
                   = Returns ((show3 Stop False)\<lparr>current_row := Some 1\<rparr>)"
    using inst_stop [of 1] by (simp add: show3_simps three_cues_length)
  moreover have "set_current_index (show3 Restart False) 5 = Returns (show3 Restart False)"
    using inst_restart [of 5] by (simp add: show3_simps three_cues_length show3_def three_cues_def)
  moreover have "set_current_index (show3 Restart False) 4
                   = Returns ((show3 Restart False)\<lparr>current_row := Some 1\<rparr>)"
    using inst_restart [of 4] by (simp add: show3_simps three_cues_length three_cues_def)
  ultimately show ?thesis by (simp add: show3_synced)
qed


section \<open>Go\<close>

text \<open>
  Claim C3. For every call \<open>go(action, advance)\<close>: if there is a current cue, it is
  executed with the given action, the cue-executed signal is emitted for it, and, only
  if \<open>auto_continue\<close> is enabled, the current index is advanced by the given step
  through \<open>set_current_index\<close>, so under its \<open>Stop\<close> and \<open>Restart\<close> rules; if there is
  no current cue, no cue is executed, no signal is emitted and the current index is
  unchanged: the layout is as it was.
\<close>

theorem go_executes_current_cue:
  assumes "view_synced s"
  shows "(current_cue s = None \<longrightarrow> go s a adv = Returns s)
       \<and> (\<forall>c. current_cue s = Some c \<longrightarrow>
            (\<not> auto_continue s \<longrightarrow>
               go s a adv = Returns (s\<lparr>trace := trace s @ [Execute c (Some a), CueExecuted c]\<rparr>))
          \<and> (auto_continue s \<longrightarrow>
               go s a adv =
                 set_current_index (s\<lparr>trace := trace s @ [Execute c (Some a), CueExecuted c]\<rparr>)
                   (current_index s + adv)
             \<and> go s a adv =
                 Returns (s\<lparr>trace := trace s @ [Execute c (Some a), CueExecuted c],
                           current_row :=
                             (if end_list s = Restart
                              then Some (nat ((current_index s + adv) mod int (length (model_adapter s))))
                              else if 0 \<le> current_index s + adv
                                      \<and> current_index s + adv < int (length (model_adapter s))
                              then Some (nat (current_index s + adv))
                              else current_row s)\<rparr>)))"
proof (intro conjI allI impI)
  assume "current_cue s = None"
  then show "go s a adv = Returns s" by (simp add: go_def)
next
  fix c assume "current_cue s = Some c" and "\<not> auto_continue s"
  then show "go s a adv = Returns (s\<lparr>trace := trace s @ [Execute c (Some a), CueExecuted c]\<rparr>)"
    by (simp add: go_def)
next
  fix c assume c: "current_cue s = Some c" and auto: "auto_continue s"
  let ?s2 = "s\<lparr>trace := trace s @ [Execute c (Some a), CueExecuted c]\<rparr>"
  from c auto show eq: "go s a adv = set_current_index ?s2 (current_index s + adv)"
    by (simp add: go_def)
  from assms have "view_synced ?s2" by simp
  moreover from c have "model_adapter ?s2 \<noteq> []" by (simp add: current_cue_Some_nonempty)
  ultimately have "set_current_index ?s2 (current_index s + adv) =
     Returns (?s2\<lparr>current_row :=
        (if end_list ?s2 = Restart then Some (nat ((current_index s + adv) mod int (length (model_adapter ?s2))))
         else if 0 \<le> current_index s + adv \<and> current_index s + adv < int (length (model_adapter ?s2)) then Some (nat (current_index s + adv))
         else current_row ?s2)\<rparr>)"
    by (rule set_current_index_nonempty)
  with eq show "go s a adv =
                 Returns (s\<lparr>trace := trace s @ [Execute c (Some a), CueExecuted c],
                           current_row :=
                             (if end_list s = Restart
                              then Some (nat ((current_index s + adv) mod int (length (model_adapter s))))
                              else if 0 \<le> current_index s + adv
                                      \<and> current_index s + adv < int (length (model_adapter s))
                              then Some (nat (current_index s + adv))
                              else current_row s)\<rparr>)"
    by simp
qed

theorem go_executes_current_cue_witness:
  "view_synced (show3 Restart True)
   \<and> current_cue (show3 Restart True) = Some \<lparr>cue_id = 12, index = 2\<rparr>
   \<and> auto_continue (show3 Restart True)
   \<and> go (show3 Restart True) () 1 =
       Returns ((show3 Restart True)\<lparr>trace := [Execute \<lparr>cue_id = 12, index = 2\<rparr> (Some ()),
                                                CueExecuted \<lparr>cue_id = 12, index = 2\<rparr>],
                                      current_row := Some 0\<rparr>)
   \<and> view_synced (empty_show Stop) \<and> current_cue (empty_show Stop) = None
   \<and> go (empty_show Stop) () 1 = Returns (empty_show Stop)"
proof -
  have c: "current_cue (show3 Restart True) = Some \<lparr>cue_id = 12, index = 2\<rparr>"
    by (rule show3_current_cue)
  have a: "auto_continue (show3 Restart True)" by (simp add: show3_simps)
  have v: "view_synced (empty_show Stop)" by (simp add: view_synced_def empty_show_def)
  have n: "current_cue (empty_show Stop) = None"
    by (simp add: current_cue_def current_index_def empty_show_def)
  let ?X = "show3 Restart True"
  let ?c = "\<lparr>cue_id = 12, index = 2\<rparr>"
  from go_executes_current_cue [OF show3_synced, of Restart True "()" 1] c a
  have "go ?X () 1 =
          Returns (?X\<lparr>trace := trace ?X @ [Execute ?c (Some ()), CueExecuted ?c],
                      current_row :=
                        (if end_list ?X = Restart
                         then Some (nat ((current_index ?X + 1) mod int (length (model_adapter ?X))))
                         else if 0 \<le> current_index ?X + 1
                                 \<and> current_index ?X + 1 < int (length (model_adapter ?X))
                         then Some (nat (current_index ?X + 1))
                         else current_row ?X)\<rparr>)"
    by blast
  then have "go ?X () 1 =
       Returns (?X\<lparr>trace := [Execute ?c (Some ()), CueExecuted ?c], current_row := Some 0\<rparr>)"
    by (simp add: show3_simps three_cues_length current_index_def)
  moreover from go_executes_current_cue [OF v, of "()" 1] n
  have "go (empty_show Stop) () 1 = Returns (empty_show Stop)" by simp
  ultimately show ?thesis using c a v n show3_synced by simp
qed


section \<open>A cue signals that it has finished\<close>










section \<open>The synchronized wrappers\<close>

text \<open>What \<open>acquire\<close> does, by the conditions it tests in turn.\<close>

lemma acquire_invalid:
  assumes "\<not> valid_acquire_arguments blocking timeout"
  shows "acquire t blocking timeout l = Some (Raise ValueError l)"
proof (cases "\<not> blocking \<and> timeout \<noteq> - 1")
  case True
  then have c: "(\<not> blocking \<and> timeout \<noteq> - 1) = True" by (rule eqTrueI)
  show ?thesis unfolding acquire_def c by (rule if_True)
next
  case False
  then have c: "(\<not> blocking \<and> timeout \<noteq> - 1) = False" by (rule eq_False [THEN iffD2])
  from False assms have "timeout < 0 \<and> timeout \<noteq> - 1"
    unfolding valid_acquire_arguments_def by blast
  then have d: "(timeout < 0 \<and> timeout \<noteq> - 1) = True" by (rule eqTrueI)
  show ?thesis unfolding acquire_def c d by (simp only: if_True if_False)
qed

lemma acquire_valid:
  assumes "valid_acquire_arguments blocking timeout"
  shows "acquire t blocking timeout l =
           (if 0 < level l \<and> owner l = Some t then Some (Return True (l\<lparr>level := level l + 1\<rparr>))
            else if level l = 0 then Some (Return True (l\<lparr>owner := Some t, level := 1\<rparr>))
            else if blocking \<and> timeout = - 1 then None
            else Some (Return False l))"
proof -
  from assms have a: "\<not> (\<not> blocking \<and> timeout \<noteq> - 1)" and b: "\<not> (timeout < 0 \<and> timeout \<noteq> - 1)"
    unfolding valid_acquire_arguments_def by blast+
  show ?thesis unfolding acquire_def by (simp only: a b if_False)
qed

lemma acquire_False_iff:
  "acquire t blocking timeout l = Some (Return False l') \<longleftrightarrow>
     l' = l \<and> valid_acquire_arguments blocking timeout \<and> 0 < level l \<and> owner l \<noteq> Some t
     \<and> \<not> (blocking \<and> timeout = - 1)"
proof (cases "valid_acquire_arguments blocking timeout")
  case False
  then show ?thesis by (simp add: acquire_invalid)
next
  case True
  show ?thesis
  proof (cases "0 < level l \<and> owner l = Some t")
    case owned: True
    with True show ?thesis by (simp add: acquire_valid)
  next
    case not_owned: False
    show ?thesis
    proof (cases "level l = 0")
      case free: True
      with True show ?thesis by (simp add: acquire_valid)
    next
      case held: False
      with not_owned have other: "owner l \<noteq> Some t" by simp
      show ?thesis
      proof (cases "blocking \<and> timeout = - 1")
        case for_ever: True
        with True held other show ?thesis by (simp add: acquire_valid)
      next
        case bounded: False
        with True held other have "acquire t blocking timeout l = Some (Return False l)"
          by (simp add: acquire_valid)
        with True held other bounded show ?thesis by auto
      qed
    qed
  qed
qed

lemma acquire_True_cases:
  assumes "acquire t blocking timeout l = Some (Return True l')"
  shows "(0 < level l \<and> owner l = Some t \<and> l' = l\<lparr>level := level l + 1\<rparr>)
         \<or> (level l = 0 \<and> l' = l\<lparr>owner := Some t, level := 1\<rparr>)"
proof -
  have valid: "valid_acquire_arguments blocking timeout"
  proof (rule ccontr)
    assume "\<not> valid_acquire_arguments blocking timeout"
    then have "acquire t blocking timeout l = Some (Raise ValueError l)" by (rule acquire_invalid)
    with assms show False by simp
  qed
  show ?thesis
  proof (cases "0 < level l \<and> owner l = Some t")
    case True
    with valid assms have "l' = l\<lparr>level := level l + 1\<rparr>" by (simp add: acquire_valid)
    with True show ?thesis by simp
  next
    case not_owned: False
    show ?thesis
    proof (cases "level l = 0")
      case True
      with valid assms have "l' = l\<lparr>owner := Some t, level := 1\<rparr>" by (simp add: acquire_valid)
      with True show ?thesis by simp
    next
      case held: False
      then have "acquire t blocking timeout l = None \<or> acquire t blocking timeout l = Some (Return False l)"
        using valid not_owned by (simp add: acquire_valid)
      with assms show ?thesis by auto
    qed
  qed
qed

lemma release_not_owner:
  assumes "owner l \<noteq> Some t"
  shows "release t l = Raise RuntimeError l" and "release_or_pass t l = Return () l"
  using assms by (simp_all add: release_def release_or_pass_def)

lemma release_after_acquire:
  assumes "rlock_wf l" and "acquire t blocking timeout l = Some (Return True l')"
  shows "release t l' = Return () l"
proof -
  from acquire_True_cases [OF assms(2)] show ?thesis
  proof
    assume "0 < level l \<and> owner l = Some t \<and> l' = l\<lparr>level := level l + 1\<rparr>"
    then show ?thesis by (simp add: release_def)
  next
    assume h: "level l = 0 \<and> l' = l\<lparr>owner := Some t, level := 1\<rparr>"
    with assms(1) have "owner l = None" by (simp add: rlock_wf_def)
    with h show ?thesis by (cases l) (simp add: release_def)
  qed
qed

lemma release_or_pass_after_acquire:
  assumes "rlock_wf l" and "acquire t blocking timeout l = Some (Return True l')"
  shows "release_or_pass t l' = Return () l"
proof -
  have "release t l' = Return () l" using assms by (rule release_after_acquire)
  then show ?thesis unfolding release_or_pass_def by simp
qed

lemma synchronized_skips:
  assumes "acquire t blocking timeout l = Some (Return False l')"
  shows "synchronized target blocking timeout t args (l, w) = Some (Return None (l, w))"
proof -
  from assms have same: "l' = l" and other: "owner l \<noteq> Some t"
    by (simp_all add: acquire_False_iff)
  from other have "release_or_pass t l = Return () l" by (rule release_not_owner)
  with assms same show ?thesis
    by (simp add: synchronized_def call_if_acquired_def try_finally_def release_in_state_def)
qed

lemma synchronized_runs:
  assumes "rlock_wf l" and "acquire t blocking timeout l = Some (Return True l')"
  shows "synchronized target blocking timeout t args (l, w) =
           Some (case target args w of
                   Return r w' \<Rightarrow> Return r (l, w')
                 | Raise e w' \<Rightarrow> Raise e (l, w'))"
proof -
  have "release_or_pass t l' = Return () l"
    using assms by (rule release_or_pass_after_acquire)
  with assms(2) show ?thesis
    by (cases "target args w")
       (simp_all add: synchronized_def call_if_acquired_def try_finally_def release_in_state_def)
qed

lemma method_skips:
  assumes "\<not> meta_locked self"
    and "attrs self (method_lock_name lock_name target_name) = Some l"
    and "acquire t blocking timeout l = Some (Return False l')"
  shows "synchronized_method_wrapped target target_name lock_name blocking timeout t args self
           = Some (Return None self)"
proof -
  have "synchronized target blocking timeout t args (l, world self) = Some (Return None (l, world self))"
    using assms(3) by (rule synchronized_skips)
  moreover have "(attrs self)(method_lock_name lock_name target_name \<mapsto> l) = attrs self"
    using assms(2) by (rule map_upd_triv)
  ultimately show ?thesis
    using assms(1,2) by (simp add: synchronized_method_wrapped_def)
qed

lemma method_runs:
  assumes "\<not> meta_locked self"
    and "l = (case attrs self (method_lock_name lock_name target_name) of None \<Rightarrow> RLock | Some x \<Rightarrow> x)"
    and "rlock_wf l" and "acquire t blocking timeout l = Some (Return True l')"
  shows "synchronized_method_wrapped target target_name lock_name blocking timeout t args self =
           Some (case target args (world self) of
                   Return r w' \<Rightarrow>
                     Return r (self\<lparr>attrs := (attrs self)(method_lock_name lock_name target_name \<mapsto> l),
                                    world := w'\<rparr>)
                 | Raise e w' \<Rightarrow>
                     Raise e (self\<lparr>attrs := (attrs self)(method_lock_name lock_name target_name \<mapsto> l),
                                   world := w'\<rparr>))"
proof -
  have "synchronized target blocking timeout t args (l, world self) =
           Some (case target args (world self) of
                   Return r w' \<Rightarrow> Return r (l, w')
                 | Raise e w' \<Rightarrow> Raise e (l, w'))"
    using assms(3,4) by (rule synchronized_runs)
  then show ?thesis
    using assms(1,2) by (cases "target args (world self)")
      (simp_all add: synchronized_method_wrapped_def Let_def)
qed

lemma RLock_wf: "rlock_wf RLock" "owner RLock = None" "level RLock = 0"
  by (simp_all add: rlock_wf_def RLock_def)

text \<open>
  Claim C4. For every function or method wrapped with the re-entrant lock decorators,
  called by thread \<open>t\<close>: when the acquisition fails (\<open>acquire\<close> returns \<open>False\<close>), the
  wrapper returns \<open>None\<close> without invoking the body and without raising: the result
  does not depend on the body, and the lock and the program are as they were. When
  the acquisition succeeds (\<open>acquire\<close> returns \<open>True\<close>), the body's outcome is the
  wrapper's, a raised exception included, and the lock is back in the state it had
  before the call: it has been released. A release by a thread that does not hold the
  lock raises \<open>RuntimeError\<close>, and the wrappers' \<open>finally\<close> block swallows it; this is
  the release of the failed-acquire path. The acquisition fails exactly when another
  thread holds the lock and the call does not block or its timeout runs out.
\<close>

theorem synchronized_wrappers_lock_discipline:
  "(acquire t blocking timeout l = Some (Return False l') \<longrightarrow>
      synchronized target blocking timeout t args (l, w) = Some (Return None (l, w))
    \<and> (\<not> meta_locked self \<and> attrs self (method_lock_name lock_name target_name) = Some l \<longrightarrow>
         synchronized_method_wrapped target target_name lock_name blocking timeout t args self
           = Some (Return None self)))
   \<and> (rlock_wf l \<and> acquire t blocking timeout l = Some (Return True l') \<longrightarrow>
        synchronized target blocking timeout t args (l, w) =
          Some (case target args w of
                  Return r w' \<Rightarrow> Return r (l, w')
                | Raise e w' \<Rightarrow> Raise e (l, w'))
      \<and> (\<not> meta_locked self
          \<and> l = (case attrs self (method_lock_name lock_name target_name) of
                    None \<Rightarrow> RLock | Some x \<Rightarrow> x) \<longrightarrow>
           synchronized_method_wrapped target target_name lock_name blocking timeout t args self =
             Some (case target args (world self) of
                     Return r w' \<Rightarrow>
                       Return r (self\<lparr>attrs := (attrs self)(method_lock_name lock_name target_name \<mapsto> l),
                                      world := w'\<rparr>)
                   | Raise e w' \<Rightarrow>
                       Raise e (self\<lparr>attrs := (attrs self)(method_lock_name lock_name target_name \<mapsto> l),
                                     world := w'\<rparr>))))
   \<and> (owner l \<noteq> Some t \<longrightarrow>
        release t l = Raise RuntimeError l \<and> release_or_pass t l = Return () l)
   \<and> (acquire t blocking timeout l = Some (Return False l') \<longleftrightarrow>
        l' = l \<and> valid_acquire_arguments blocking timeout \<and> 0 < level l \<and> owner l \<noteq> Some t
        \<and> \<not> (blocking \<and> timeout = - 1))"
proof (intro conjI impI)
  assume h: "acquire t blocking timeout l = Some (Return False l')"
  then show "synchronized target blocking timeout t args (l, w) = Some (Return None (l, w))"
    by (rule synchronized_skips)
  assume "\<not> meta_locked self \<and> attrs self (method_lock_name lock_name target_name) = Some l"
  then have "\<not> meta_locked self" and "attrs self (method_lock_name lock_name target_name) = Some l"
    by simp_all
  then show "synchronized_method_wrapped target target_name lock_name blocking timeout t args self
          = Some (Return None self)"
    using h by (rule method_skips)
next
  assume h: "rlock_wf l \<and> acquire t blocking timeout l = Some (Return True l')"
  then have wf: "rlock_wf l" and got: "acquire t blocking timeout l = Some (Return True l')"
    by simp_all
  then show "synchronized target blocking timeout t args (l, w) =
              Some (case target args w of
                      Return r w' \<Rightarrow> Return r (l, w')
                    | Raise e w' \<Rightarrow> Raise e (l, w'))"
    by (rule synchronized_runs)
  assume m: "\<not> meta_locked self
              \<and> l = (case attrs self (method_lock_name lock_name target_name) of
                        None \<Rightarrow> RLock | Some x \<Rightarrow> x)"
  then have "\<not> meta_locked self"
    and "l = (case attrs self (method_lock_name lock_name target_name) of
                None \<Rightarrow> RLock | Some x \<Rightarrow> x)"
    by simp_all
  then show "synchronized_method_wrapped target target_name lock_name blocking timeout t args self =
                 Some (case target args (world self) of
                         Return r w' \<Rightarrow>
                           Return r (self\<lparr>attrs := (attrs self)(method_lock_name lock_name target_name \<mapsto> l),
                                          world := w'\<rparr>)
                       | Raise e w' \<Rightarrow>
                           Raise e (self\<lparr>attrs := (attrs self)(method_lock_name lock_name target_name \<mapsto> l),
                                         world := w'\<rparr>))"
    using wf got by (rule method_runs)
next
  assume "owner l \<noteq> Some t"
  then show "release t l = Raise RuntimeError l" and "release_or_pass t l = Return () l"
    by (rule release_not_owner)+
next
  show "acquire t blocking timeout l = Some (Return False l') \<longleftrightarrow>
        l' = l \<and> valid_acquire_arguments blocking timeout \<and> 0 < level l \<and> owner l \<noteq> Some t
        \<and> \<not> (blocking \<and> timeout = - 1)"
    by (rule acquire_False_iff)
qed

lemma held_by_other_simps:
  "rlock_wf held_by_other" "owner held_by_other = Some 2" "level held_by_other = 1"
  by (simp_all add: held_by_other_def rlock_wf_def)

lemma acquire_examples:
  "acquire 1 False (- 1) held_by_other = Some (Return False held_by_other)"
  "acquire 1 True 5 held_by_other = Some (Return False held_by_other)"
  "acquire 1 True (- 1) RLock = Some (Return True \<lparr>owner = Some 1, level = 1\<rparr>)"
  by (simp_all add: acquire_def held_by_other_def RLock_def)

text \<open>
  A lock that thread 2 holds, called by thread 1 without blocking and with a timeout
  of five seconds; a free lock with a body that raises; a method whose receiver has
  no lock yet, and one whose named lock thread 2 holds.
\<close>

theorem synchronized_wrappers_lock_discipline_witness:
  "acquire 1 False (- 1) held_by_other = Some (Return False held_by_other)
   \<and> acquire 1 True 5 held_by_other = Some (Return False held_by_other)
   \<and> synchronized raising_body False (- 1) 1 () (held_by_other, 0)
       = Some (Return None (held_by_other, 0))
   \<and> synchronized raising_body True 5 1 () (held_by_other, 0)
       = Some (Return None (held_by_other, 0))
   \<and> release 1 held_by_other = Raise RuntimeError held_by_other
   \<and> release_or_pass 1 held_by_other = Return () held_by_other
   \<and> rlock_wf RLock
   \<and> acquire 1 True (- 1) RLock = Some (Return True \<lparr>owner = Some 1, level = 1\<rparr>)
   \<and> synchronized raising_body True (- 1) 1 () (RLock, 0)
       = Some (Raise (OtherException ''boom'') (RLock, 1))
   \<and> synchronized_method_wrapped raising_body ''play'' None True (- 1) 1 () fresh_receiver
       = Some (Raise (OtherException ''boom'')
                 (fresh_receiver\<lparr>attrs := [''__play_lock__'' \<mapsto> RLock], world := 1\<rparr>))
   \<and> synchronized_method_wrapped raising_body ''play'' (Some ''lock'') False (- 1) 1 ()
         (fresh_receiver\<lparr>attrs := [''lock'' \<mapsto> held_by_other]\<rparr>)
       = Some (Return None (fresh_receiver\<lparr>attrs := [''lock'' \<mapsto> held_by_other]\<rparr>))"
proof -
  note h = held_by_other_simps
  note x = acquire_examples
  let ?busy = "fresh_receiver\<lparr>attrs := [''lock'' \<mapsto> held_by_other]\<rparr>"
  let ?got = "\<lparr>owner = Some 1, level = 1\<rparr>"
  have a: "synchronized raising_body False (- 1) 1 () (held_by_other, 0)
             = Some (Return None (held_by_other, 0))"
    using synchronized_wrappers_lock_discipline
            [of 1 False "- 1" held_by_other held_by_other raising_body "()" 0 fresh_receiver None "''play''"]
          x(1)
    by simp
  have b: "synchronized raising_body True 5 1 () (held_by_other, 0)
             = Some (Return None (held_by_other, 0))"
    using synchronized_wrappers_lock_discipline
            [of 1 True 5 held_by_other held_by_other raising_body "()" 0 fresh_receiver None "''play''"]
          x(2)
    by simp
  have c: "release 1 held_by_other = Raise RuntimeError held_by_other
           \<and> release_or_pass 1 held_by_other = Return () held_by_other"
    using synchronized_wrappers_lock_discipline
            [of 1 False "- 1" held_by_other held_by_other raising_body "()" 0 fresh_receiver None "''play''"]
    by (simp add: h)
  have d: "synchronized raising_body True (- 1) 1 () (RLock, 0)
             = Some (Raise (OtherException ''boom'') (RLock, 1))"
    using synchronized_wrappers_lock_discipline
            [of 1 True "- 1" RLock ?got raising_body "()" 0 fresh_receiver None "''play''"]
          x(3)
    by (simp add: RLock_wf raising_body_def)
  have e: "synchronized_method_wrapped raising_body ''play'' None True (- 1) 1 () fresh_receiver
             = Some (Raise (OtherException ''boom'')
                       (fresh_receiver\<lparr>attrs := [''__play_lock__'' \<mapsto> RLock], world := 1\<rparr>))"
    using synchronized_wrappers_lock_discipline
            [of 1 True "- 1" RLock ?got raising_body "()" 0 fresh_receiver None "''play''"]
          x(3)
    by (simp add: RLock_wf raising_body_def fresh_receiver_def method_lock_name_def)
  have f: "synchronized_method_wrapped raising_body ''play'' (Some ''lock'') False (- 1) 1 () ?busy
             = Some (Return None ?busy)"
    using synchronized_wrappers_lock_discipline
            [of 1 False "- 1" held_by_other held_by_other raising_body "()" 0 ?busy "Some ''lock''" "''play''"]
          x(1)
    by (simp add: fresh_receiver_def method_lock_name_def)
  from a b c d e f x RLock_wf(1) show ?thesis by simp
qed


text \<open>
  Re-entry: a call made by the thread that already holds the lock acquires it again,
  one level deeper, whatever the blocking mode; it runs the body, and leaves the lock
  at the level it found.
\<close>

theorem synchronized_reentrant_call:
  assumes "rlock_wf l" and "owner l = Some t" and "valid_acquire_arguments blocking timeout"
  shows "acquire t blocking timeout l = Some (Return True (l\<lparr>level := level l + 1\<rparr>))
         \<and> synchronized target blocking timeout t args (l, w) =
             Some (case target args w of
                     Return r w' \<Rightarrow> Return r (l, w')
                   | Raise e w' \<Rightarrow> Raise e (l, w'))"
proof -
  from assms(1,2) have "0 < level l" by (simp add: rlock_wf_def)
  with assms(2) have c: "(0 < level l \<and> owner l = Some t) = True" by simp
  have got: "acquire t blocking timeout l = Some (Return True (l\<lparr>level := level l + 1\<rparr>))"
    unfolding acquire_valid [OF assms(3)] c by (rule if_True)
  with assms(1) have "synchronized target blocking timeout t args (l, w) =
             Some (case target args w of
                     Return r w' \<Rightarrow> Return r (l, w')
                   | Raise e w' \<Rightarrow> Raise e (l, w'))"
    by (rule synchronized_runs)
  with got show ?thesis by (rule conjI)
qed

text \<open>Thread 2 holds the lock and calls again, waiting without limit.\<close>

theorem synchronized_reentrant_call_witness:
  "rlock_wf held_by_other \<and> owner held_by_other = Some 2 \<and> valid_acquire_arguments True (- 1)
   \<and> acquire 2 True (- 1) held_by_other = Some (Return True \<lparr>owner = Some 2, level = 2\<rparr>)
   \<and> synchronized raising_body True (- 1) 2 () (held_by_other, 0)
       = Some (Raise (OtherException ''boom'') (held_by_other, 1))"
proof -
  have wf: "rlock_wf held_by_other" and o: "owner held_by_other = Some 2"
    by (simp_all add: held_by_other_def rlock_wf_def)
  have v: "valid_acquire_arguments True (- 1)" by (simp add: valid_acquire_arguments_def)
  from synchronized_reentrant_call [OF wf o v, of raising_body "()" 0] wf o v
  show ?thesis by (simp add: held_by_other_def raising_body_def)
qed


subsection \<open>Two threads, and one thread twice\<close>

text \<open>\<open>acquire(blocking=True, timeout=-1)\<close>, the wrappers' default.\<close>

lemma valid_forever: "valid_acquire_arguments True (- 1)"
  by (simp add: valid_acquire_arguments_def)

lemma acquire_forever:
  "acquire t True (- 1) l =
     (if 0 < level l \<and> owner l = Some t then Some (Return True (l\<lparr>level := level l + 1\<rparr>))
      else if level l = 0 then Some (Return True (l\<lparr>owner := Some t, level := 1\<rparr>))
      else None)"
proof -
  have c: "(True \<and> (- 1 :: real) = - 1) = True" by simp
  show ?thesis unfolding acquire_valid [OF valid_forever] c by (simp only: if_True)
qed













text \<open>
  The same over every interleaving of calls, of any number of threads, each re-entering
  as often as it likes. A call of the wrapper is an \<open>Enter\<close> step, the body, and a
  \<open>Leave\<close> step:
\<close>

lemma step_Enter:
  "step (Enter t) s =
     (if 0 < level (shared_lock s) \<and> owner (shared_lock s) = Some t
      then Some (s\<lparr>shared_lock := (shared_lock s)\<lparr>level := level (shared_lock s) + 1\<rparr>,
                   inside := (inside s)(t := inside s t + 1)\<rparr>)
      else if level (shared_lock s) = 0
      then Some (s\<lparr>shared_lock := (shared_lock s)\<lparr>owner := Some t, level := 1\<rparr>,
                   inside := (inside s)(t := inside s t + 1)\<rparr>)
      else None)"
  unfolding step_def acquire_forever by simp

lemma step_Leave:
  "step (Leave t) s =
     (if inside s t = 0 then None
      else if level (shared_lock s) = 0 \<or> owner (shared_lock s) \<noteq> Some t
      then Some (s\<lparr>inside := (inside s)(t := inside s t - 1)\<rparr>)
      else if level (shared_lock s) = 1
      then Some (s\<lparr>shared_lock := (shared_lock s)\<lparr>owner := None, level := 0\<rparr>,
                   inside := (inside s)(t := inside s t - 1)\<rparr>)
      else Some (s\<lparr>shared_lock := (shared_lock s)\<lparr>level := level (shared_lock s) - 1\<rparr>,
                   inside := (inside s)(t := inside s t - 1)\<rparr>))"
  unfolding step_def release_or_pass_def release_def by simp

lemma release_or_pass_returns: "\<exists>l'. release_or_pass t l = Return () l'"
  by (simp add: release_or_pass_def release_def)

lemma synchronized_enters_then_leaves:
  "synchronized target True (- 1) t args (shared_lock s, w) =
     (case step (Enter t) s of
        None \<Rightarrow> None
      | Some s1 \<Rightarrow>
          (case step (Leave t) s1 of
             None \<Rightarrow> None
           | Some s2 \<Rightarrow>
               Some (case target args w of
                       Return r v \<Rightarrow> Return r (shared_lock s2, v)
                     | Raise e v \<Rightarrow> Raise e (shared_lock s2, v))))"
proof (cases "acquire t True (- 1) (shared_lock s)")
  case None
  then show ?thesis by (simp add: synchronized_def step_def)
next
  case (Some a)
  then obtain l1 where a: "acquire t True (- 1) (shared_lock s) = Some (Return True l1)"
    unfolding acquire_forever by (auto split: if_splits)
  obtain l2 where l2: "release_or_pass t l1 = Return () l2"
    using release_or_pass_returns by blast
  let ?s1 = "s\<lparr>shared_lock := l1, inside := (inside s)(t := inside s t + 1)\<rparr>"
  from a have enter: "step (Enter t) s = Some ?s1" by (simp add: step_def)
  from l2 have leave: "step (Leave t) ?s1
                         = Some (?s1\<lparr>shared_lock := l2, inside := (inside ?s1)(t := inside ?s1 t - 1)\<rparr>)"
    by (simp add: step_def)
  from a l2 have "synchronized target True (- 1) t args (shared_lock s, w) =
                    Some (case target args w of
                            Return r v \<Rightarrow> Return r (l2, v)
                          | Raise e v \<Rightarrow> Raise e (l2, v))"
    by (cases "target args w")
       (simp_all add: synchronized_def call_if_acquired_def try_finally_def release_in_state_def)
  with enter leave show ?thesis by (cases "target args w") simp_all
qed

text \<open>The owner is inside as many calls as the level of the lock says, the others in none.\<close>

lemma step_keeps:
  assumes "step ev s = Some s'"
    and "rlock_wf (shared_lock s)"
    and "\<forall>t. inside s t = (if owner (shared_lock s) = Some t then level (shared_lock s) else 0)"
  shows "rlock_wf (shared_lock s')
         \<and> (\<forall>t. inside s' t = (if owner (shared_lock s') = Some t then level (shared_lock s') else 0))"
proof (cases ev)
  case (Enter t)
  show ?thesis
  proof (cases "0 < level (shared_lock s) \<and> owner (shared_lock s) = Some t")
    case True
    with assms(1) Enter
    have s': "s' = s\<lparr>shared_lock := (shared_lock s)\<lparr>level := level (shared_lock s) + 1\<rparr>,
                      inside := (inside s)(t := inside s t + 1)\<rparr>"
      by (simp add: step_Enter)
    from True assms(2,3) show ?thesis unfolding s' by (simp add: rlock_wf_def)
  next
    case False
    show ?thesis
    proof (cases "level (shared_lock s) = 0")
      case free: True
      with False assms(1) Enter
      have s': "s' = s\<lparr>shared_lock := (shared_lock s)\<lparr>owner := Some t, level := 1\<rparr>,
                        inside := (inside s)(t := inside s t + 1)\<rparr>"
        by (simp add: step_Enter)
      from free assms(2,3) show ?thesis unfolding s' by (simp add: rlock_wf_def)
    next
      case held: False
      with False assms(1) Enter have False by (simp add: step_Enter)
      then show ?thesis ..
    qed
  qed
next
  case (Leave t)
  from assms(1) Leave have ins: "inside s t \<noteq> 0"
    by (cases "inside s t = 0") (simp_all add: step_Leave)
  have mine: "owner (shared_lock s) = Some t"
  proof (rule ccontr)
    assume "owner (shared_lock s) \<noteq> Some t"
    with assms(3) have "inside s t = 0" by simp
    with ins show False ..
  qed
  with assms(3) have lev: "inside s t = level (shared_lock s)" by simp
  with ins have pos: "level (shared_lock s) \<noteq> 0" by simp
  have others: "inside s u = 0" if "u \<noteq> t" for u
  proof -
    from that mine have "owner (shared_lock s) \<noteq> Some u" by simp
    with assms(3) show ?thesis by simp
  qed
  have leave: "step (Leave t) s =
                 (if level (shared_lock s) = 1
                  then Some (s\<lparr>shared_lock := (shared_lock s)\<lparr>owner := None, level := 0\<rparr>,
                               inside := (inside s)(t := inside s t - 1)\<rparr>)
                  else Some (s\<lparr>shared_lock := (shared_lock s)\<lparr>level := level (shared_lock s) - 1\<rparr>,
                               inside := (inside s)(t := inside s t - 1)\<rparr>))"
    using ins mine pos by (simp add: step_Leave)
  show ?thesis
  proof (cases "level (shared_lock s) = 1")
    case True
    with assms(1) Leave leave
    have s': "s' = s\<lparr>shared_lock := (shared_lock s)\<lparr>owner := None, level := 0\<rparr>,
                      inside := (inside s)(t := inside s t - 1)\<rparr>"
      by simp
    have "inside s' u = 0" for u
    proof (cases "u = t")
      case True
      with s' lev \<open>level (shared_lock s) = 1\<close> show ?thesis by simp
    next
      case False
      with s' others show ?thesis by simp
    qed
    then show ?thesis unfolding s' by (simp add: rlock_wf_def)
  next
    case False
    with assms(1) Leave leave
    have s': "s' = s\<lparr>shared_lock := (shared_lock s)\<lparr>level := level (shared_lock s) - 1\<rparr>,
                      inside := (inside s)(t := inside s t - 1)\<rparr>"
      by simp
    from False pos have more: "1 < level (shared_lock s)" by simp
    have "inside s' u = (if u = t then level (shared_lock s) - 1 else 0)" for u
    proof (cases "u = t")
      case True
      with s' lev show ?thesis by simp
    next
      case False
      with s' others show ?thesis by simp
    qed
    moreover have "owner (shared_lock s') = Some t" and "level (shared_lock s') = level (shared_lock s) - 1"
      using s' mine by simp_all
    moreover from more have "rlock_wf (shared_lock s')"
      using s' mine by (simp add: rlock_wf_def)
    ultimately show ?thesis by auto
  qed
qed

lemma run_keeps:
  assumes "run evs s = Some s'"
    and "rlock_wf (shared_lock s)"
    and "\<forall>t. inside s t = (if owner (shared_lock s) = Some t then level (shared_lock s) else 0)"
  shows "rlock_wf (shared_lock s')
         \<and> (\<forall>t. inside s' t = (if owner (shared_lock s') = Some t then level (shared_lock s') else 0))"
  using assms
proof (induction evs arbitrary: s)
  case Nil
  then show ?case by simp
next
  case (Cons ev evs)
  from Cons.prems(1) obtain s1 where s1: "step ev s = Some s1" and rest: "run evs s1 = Some s'"
    by (cases "step ev s") simp_all
  from step_keeps [OF s1 Cons.prems(2,3)]
  have "rlock_wf (shared_lock s1)"
    and "\<forall>t. inside s1 t = (if owner (shared_lock s1) = Some t then level (shared_lock s1) else 0)"
    by simp_all
  with rest show ?case by (rule Cons.IH)
qed

text \<open>
  After any schedule that can run from the start: no two threads are inside a body
  at the same time; a thread that is inside can enter again and can leave; no other
  thread can enter meanwhile; and when nobody is inside, every thread can enter.
\<close>

theorem interleaved_calls_exclude_each_other:
  assumes "run evs no_calls = Some s"
  shows "(\<forall>t u. 0 < inside s t \<and> 0 < inside s u \<longrightarrow> t = u)
       \<and> (\<forall>t. 0 < inside s t \<longrightarrow> step (Enter t) s \<noteq> None \<and> step (Leave t) s \<noteq> None)
       \<and> (\<forall>t u. 0 < inside s t \<and> u \<noteq> t \<longrightarrow> step (Enter u) s = None)
       \<and> ((\<forall>u. inside s u = 0) \<longrightarrow> (\<forall>t. step (Enter t) s \<noteq> None))"
proof -
  have "rlock_wf (shared_lock no_calls)"
    and "\<forall>t. inside no_calls t
           = (if owner (shared_lock no_calls) = Some t then level (shared_lock no_calls) else 0)"
    by (simp_all add: no_calls_def RLock_def rlock_wf_def)
  with assms have wf: "rlock_wf (shared_lock s)"
    and ins: "\<forall>t. inside s t = (if owner (shared_lock s) = Some t then level (shared_lock s) else 0)"
    using run_keeps by blast+
  have owner_of: "owner (shared_lock s) = Some t \<and> 0 < level (shared_lock s)" if "0 < inside s t" for t
    using that ins by (metis less_numeral_extra(3))
  have excl: "\<forall>t u. 0 < inside s t \<and> 0 < inside s u \<longrightarrow> t = u"
    using owner_of by (metis option.inject)
  have again: "\<forall>t. 0 < inside s t \<longrightarrow> step (Enter t) s \<noteq> None \<and> step (Leave t) s \<noteq> None"
  proof (intro allI impI)
    fix t assume t: "0 < inside s t"
    from owner_of [OF t] show "step (Enter t) s \<noteq> None \<and> step (Leave t) s \<noteq> None"
      using t by (simp add: step_Enter step_Leave)
  qed
  have blocked: "\<forall>t u. 0 < inside s t \<and> u \<noteq> t \<longrightarrow> step (Enter u) s = None"
  proof (intro allI impI)
    fix t u assume h: "0 < inside s t \<and> u \<noteq> t"
    then have "0 < inside s t" and "u \<noteq> t" by simp_all
    from owner_of [OF this(1)] \<open>u \<noteq> t\<close> show "step (Enter u) s = None"
      by (simp add: step_Enter)
  qed
  have idle: "(\<forall>u. inside s u = 0) \<longrightarrow> (\<forall>t. step (Enter t) s \<noteq> None)"
  proof (intro allI impI)
    fix t assume none: "\<forall>u. inside s u = 0"
    have "level (shared_lock s) = 0"
    proof (cases "owner (shared_lock s)")
      case None
      with wf show ?thesis by (simp add: rlock_wf_def)
    next
      case (Some u)
      with ins have "inside s u = level (shared_lock s)" by simp
      with none show ?thesis by simp
    qed
    then show "step (Enter t) s \<noteq> None" by (simp add: step_Enter)
  qed
  from excl again blocked idle show ?thesis by blast
qed


lemma interleaving_examples:
  "run [Enter 1, Enter 1, Leave 1, Leave 1, Enter 2] no_calls
     = Some \<lparr>shared_lock = \<lparr>owner = Some 2, level = 1\<rparr>, inside = (\<lambda>t. 0)(1 := 0, 2 := 1)\<rparr>"
  "run [Enter 1, Enter 2] no_calls = None"
  "run [Enter 1, Leave 2] no_calls = None"
  by (simp_all add: step_def acquire_def release_or_pass_def release_def no_calls_def RLock_def)


section \<open>Memoization\<close>

lemma memoizer_hit:
  assumes "cache (memo_key str_args str_kwargs args kwargs) = Some v"
  shows "memoizer str_args str_kwargs obj args kwargs (cache, w) = Return v (cache, w)"
  using assms by (simp add: memoizer_def memo_key_def)

lemma memoizer_miss:
  assumes "cache (memo_key str_args str_kwargs args kwargs) = None"
  shows "memoizer str_args str_kwargs obj args kwargs (cache, w) =
           (case obj args kwargs w of
              Raise e w' \<Rightarrow> Raise e (cache, w')
            | Return v w' \<Rightarrow> Return v (cache(memo_key str_args str_kwargs args kwargs \<mapsto> v), w'))"
  using assms unfolding memoizer_def memo_key_def
  by (cases "obj args kwargs w") simp_all

lemma memoizer_Return_cached:
  assumes "memoizer str_args str_kwargs obj args kwargs st = Return r st1"
  shows "fst st1 (memo_key str_args str_kwargs args kwargs) = Some r"
proof (cases st)
  case (Pair cache w)
  show ?thesis
  proof (cases "cache (memo_key str_args str_kwargs args kwargs)")
    case None
    with assms Pair show ?thesis
      by (cases "obj args kwargs w") (auto simp: memoizer_miss)
  next
    case (Some v)
    with assms Pair show ?thesis by (auto simp: memoizer_hit)
  qed
qed

lemma memoizer_keeps:
  assumes "fst st key = Some v"
  shows "memoizer str_args str_kwargs obj args kwargs st = Return r st1 \<Longrightarrow> fst st1 key = Some v"
    and "memoizer str_args str_kwargs obj args kwargs st = Raise e st1 \<Longrightarrow> fst st1 key = Some v"
proof -
  obtain cache w where st: "st = (cache, w)" by (cases st)
  show "memoizer str_args str_kwargs obj args kwargs st = Return r st1 \<Longrightarrow> fst st1 key = Some v"
    using assms st
    by (cases "cache (memo_key str_args str_kwargs args kwargs)"; cases "obj args kwargs w")
       (auto simp: memoizer_miss memoizer_hit)
  show "memoizer str_args str_kwargs obj args kwargs st = Raise e st1 \<Longrightarrow> fst st1 key = Some v"
    using assms st
    by (cases "cache (memo_key str_args str_kwargs args kwargs)"; cases "obj args kwargs w")
       (auto simp: memoizer_miss memoizer_hit)
qed

lemma memo_calls_keeps:
  "fst st key = Some v \<Longrightarrow> fst (memo_calls str_args str_kwargs obj calls st) key = Some v"
proof (induction calls arbitrary: st)
  case Nil
  then show ?case by simp
next
  case (Cons call calls)
  obtain args kwargs where call: "call = (args, kwargs)" by (cases call)
  show ?case
  proof (cases "memoizer str_args str_kwargs obj args kwargs st")
    case (Return r st1)
    have "fst st1 key = Some v" by (rule memoizer_keeps(1) [OF Cons.prems Return])
    then have "fst (memo_calls str_args str_kwargs obj calls st1) key = Some v"
      by (rule Cons.IH)
    with Return call show ?thesis by simp
  next
    case (Raise e st1)
    have "fst st1 key = Some v" by (rule memoizer_keeps(2) [OF Cons.prems Raise])
    then have "fst (memo_calls str_args str_kwargs obj calls st1) key = Some v"
      by (rule Cons.IH)
    with Raise call show ?thesis by simp
  qed
qed

lemma memoizer_dom:
  shows "memoizer str_args str_kwargs obj args kwargs st = Return r st1
           \<Longrightarrow> dom (fst st1) \<subseteq> insert (memo_key str_args str_kwargs args kwargs) (dom (fst st))"
    and "memoizer str_args str_kwargs obj args kwargs st = Raise e st1
           \<Longrightarrow> dom (fst st1) \<subseteq> insert (memo_key str_args str_kwargs args kwargs) (dom (fst st))"
proof -
  obtain cache w where st: "st = (cache, w)" by (cases st)
  show "memoizer str_args str_kwargs obj args kwargs st = Return r st1
           \<Longrightarrow> dom (fst st1) \<subseteq> insert (memo_key str_args str_kwargs args kwargs) (dom (fst st))"
    using st
    by (cases "cache (memo_key str_args str_kwargs args kwargs)"; cases "obj args kwargs w")
       (auto simp: memoizer_miss memoizer_hit)
  show "memoizer str_args str_kwargs obj args kwargs st = Raise e st1
           \<Longrightarrow> dom (fst st1) \<subseteq> insert (memo_key str_args str_kwargs args kwargs) (dom (fst st))"
    using st
    by (cases "cache (memo_key str_args str_kwargs args kwargs)"; cases "obj args kwargs w")
       (auto simp: memoizer_miss memoizer_hit)
qed

lemma memo_calls_dom:
  "dom (fst (memo_calls str_args str_kwargs obj calls st))
     \<subseteq> dom (fst st) \<union> set (map (\<lambda>(x, y). memo_key str_args str_kwargs x y) calls)"
proof (induction calls arbitrary: st)
  case Nil
  then show ?case by simp
next
  case (Cons call calls)
  obtain args kwargs where call: "call = (args, kwargs)" by (cases call)
  let ?keys = "set (map (\<lambda>(x, y). memo_key str_args str_kwargs x y) calls)"
  have step: "dom (fst (memo_calls str_args str_kwargs obj calls st1))
                \<subseteq> dom (fst st) \<union> insert (memo_key str_args str_kwargs args kwargs) ?keys"
    if "dom (fst st1) \<subseteq> insert (memo_key str_args str_kwargs args kwargs) (dom (fst st))" for st1
  proof -
    have "dom (fst (memo_calls str_args str_kwargs obj calls st1)) \<subseteq> dom (fst st1) \<union> ?keys"
      by (rule Cons.IH)
    with that show ?thesis by blast
  qed
  show ?case
  proof (cases "memoizer str_args str_kwargs obj args kwargs st")
    case (Return r st1)
    from step [OF memoizer_dom(1) [OF Return]] Return call show ?thesis by simp
  next
    case (Raise e st1)
    from step [OF memoizer_dom(2) [OF Raise]] Raise call show ?thesis by simp
  qed
qed

text \<open>
  Claim C5. For every memoized callable and every call whose arguments have the same
  textual representation (\<open>str\<close> of the positional arguments followed by \<open>str\<close> of the
  keyword arguments) as those of a previous call that returned \<open>r\<close>, whatever calls
  were made in between, the wrapper returns the cached \<open>r\<close> without invoking the body
  again: the result is the same for any body, and the cache and the program are as
  they were. A call whose representation differs from that of every call made since
  the callable was decorated invokes the body, and a value the body returns is cached
  under the new key, beside the entries the cache already has.
\<close>

theorem memoizer_caches_by_text:
  "(memoizer str_args str_kwargs obj args kwargs st = Return r st'
      \<and> memo_key str_args str_kwargs args' kwargs' = memo_key str_args str_kwargs args kwargs \<longrightarrow>
        memoizer str_args str_kwargs obj' args' kwargs' (memo_calls str_args str_kwargs obj calls st')
          = Return r (memo_calls str_args str_kwargs obj calls st'))
   \<and> (memo_key str_args str_kwargs args' kwargs'
         \<notin> set (map (\<lambda>(x, y). memo_key str_args str_kwargs x y) calls) \<longrightarrow>
        memoizer str_args str_kwargs obj args' kwargs' (memo_calls str_args str_kwargs obj calls (Map.empty, w_start))
          = (case memo_calls str_args str_kwargs obj calls (Map.empty, w_start) of
               (cache, w) \<Rightarrow>
                 (case obj args' kwargs' w of
                    Raise e w' \<Rightarrow> Raise e (cache, w')
                  | Return v w' \<Rightarrow>
                      Return v (cache(memo_key str_args str_kwargs args' kwargs' \<mapsto> v), w'))))"
proof (intro conjI impI)
  assume h: "memoizer str_args str_kwargs obj args kwargs st = Return r st'
      \<and> memo_key str_args str_kwargs args' kwargs' = memo_key str_args str_kwargs args kwargs"
  let ?st2 = "memo_calls str_args str_kwargs obj calls st'"
  from h have first: "memoizer str_args str_kwargs obj args kwargs st = Return r st'" by simp
  then have "fst st' (memo_key str_args str_kwargs args kwargs) = Some r"
    by (rule memoizer_Return_cached)
  then have "fst ?st2 (memo_key str_args str_kwargs args kwargs) = Some r"
    by (rule memo_calls_keeps)
  with h have "fst ?st2 (memo_key str_args str_kwargs args' kwargs') = Some r" by simp
  then have "memoizer str_args str_kwargs obj' args' kwargs' (fst ?st2, snd ?st2)
               = Return r (fst ?st2, snd ?st2)"
    by (rule memoizer_hit)
  then show "memoizer str_args str_kwargs obj' args' kwargs' ?st2 = Return r ?st2" by simp
next
  assume new: "memo_key str_args str_kwargs args' kwargs'
         \<notin> set (map (\<lambda>(x, y). memo_key str_args str_kwargs x y) calls)"
  let ?st = "memo_calls str_args str_kwargs obj calls (Map.empty, w_start)"
  obtain cache w where st: "?st = (cache, w)" by (cases ?st)
  from memo_calls_dom [of str_args str_kwargs obj calls "(Map.empty, w_start)"] new st
  have "memo_key str_args str_kwargs args' kwargs' \<notin> dom cache" by auto
  then have "cache (memo_key str_args str_kwargs args' kwargs') = None" by (simp add: domIff)
  then have "memoizer str_args str_kwargs obj args' kwargs' (cache, w) =
           (case obj args' kwargs' w of
              Raise e w' \<Rightarrow> Raise e (cache, w')
            | Return v w' \<Rightarrow> Return v (cache(memo_key str_args str_kwargs args' kwargs' \<mapsto> v), w'))"
    by (rule memoizer_miss)
  with st show "memoizer str_args str_kwargs obj args' kwargs' ?st
          = (case ?st of
               (cache, w) \<Rightarrow>
                 (case obj args' kwargs' w of
                    Raise e w' \<Rightarrow> Raise e (cache, w')
                  | Return v w' \<Rightarrow>
                      Return v (cache(memo_key str_args str_kwargs args' kwargs' \<mapsto> v), w')))"
    by simp
qed


lemma example_keys:
  "memo_key str_int_tuple str_empty_dict [1, 2] () = ''(1, 2){}''"
  "memo_key str_int_tuple str_empty_dict [2, 1] () = ''(2, 1){}''"
  by (simp_all add: memo_key_def str_int_tuple_def str_int_def str_empty_dict_def digit_char_def)

lemma first_call:
  "memoizer str_int_tuple str_empty_dict counting_sum [1, 2] () (Map.empty, 0)
     = Return 3 ([''(1, 2){}'' \<mapsto> 3], 1)"
  using memoizer_miss [of Map.empty str_int_tuple str_empty_dict "[1, 2]" "()" counting_sum 0]
  by (simp add: example_keys counting_sum_def)

text \<open>
  The spec's example: \<open>f(1, 2)\<close> computes, \<open>f(1, 2)\<close> again returns the cached value
  (the body's call counter stays at 1), and \<open>f(2, 1)\<close> computes again under its own
  key.
\<close>

theorem memoizer_caches_by_text_witness:
  "memoizer str_int_tuple str_empty_dict counting_sum [1, 2] () (Map.empty, 0)
     = Return 3 ([''(1, 2){}'' \<mapsto> 3], 1)
   \<and> memo_key str_int_tuple str_empty_dict [1, 2] () = ''(1, 2){}''
   \<and> memoizer str_int_tuple str_empty_dict counting_sum [1, 2] () ([''(1, 2){}'' \<mapsto> 3], 1)
     = Return 3 ([''(1, 2){}'' \<mapsto> 3], 1)
   \<and> memo_key str_int_tuple str_empty_dict [2, 1] () = ''(2, 1){}''
   \<and> memoizer str_int_tuple str_empty_dict counting_sum [2, 1] () ([''(1, 2){}'' \<mapsto> 3], 1)
     = Return 3 ([''(1, 2){}'' \<mapsto> 3, ''(2, 1){}'' \<mapsto> 3], 2)"
proof -
  let ?after = "([''(1, 2){}'' \<mapsto> 3], 1) :: int cache \<times> nat"
  have again: "memoizer str_int_tuple str_empty_dict counting_sum [1, 2] () ?after = Return 3 ?after"
    using memoizer_caches_by_text
            [where str_args = str_int_tuple and str_kwargs = str_empty_dict and obj = counting_sum
               and obj' = counting_sum and args = "[1, 2]" and kwargs = "()" and args' = "[1, 2]"
               and kwargs' = "()" and st = "(Map.empty, 0)" and r = 3 and st' = ?after
               and calls = "[]"]
          first_call
    by simp
  have other: "memoizer str_int_tuple str_empty_dict counting_sum [2, 1] () ?after
                 = Return 3 ([''(1, 2){}'' \<mapsto> 3, ''(2, 1){}'' \<mapsto> 3], 2)"
    using memoizer_caches_by_text
            [where str_args = str_int_tuple and str_kwargs = str_empty_dict and obj = counting_sum
               and args' = "[2, 1]" and kwargs' = "()" and w_start = 0 and calls = "[([1, 2], ())]",
             THEN conjunct2]
    by (simp add: first_call example_keys counting_sum_def)
  from first_call again other example_keys show ?thesis by simp
qed



section \<open>Exception suppression\<close>

text \<open>
  Claim C7 says that for every logging configuration of \<open>suppress_exceptions\<close>,
  including one given as a keyword option, an error raised in the wrapped body is
  caught, optionally logged, and replaced with \<open>None\<close>. The code, at
  \<open>@suppress_exceptions(log=b)\<close> and at \<open>@suppress_exceptions()\<close> above any function:
  the decorator returns \<open>partial(suppress_exceptions, print_exc=log)\<close>, and calling
  that with the function is a \<open>TypeError\<close>, since \<open>print_exc\<close> is not a parameter; no
  wrapper is made. And the wrapper that \<open>suppress_exceptions(f, log=False)\<close> makes
  never reads \<open>log\<close>: it logs the exception all the same.
\<close>

theorem suppress_exceptions_keyword_option_fails:
  "decorate_with_keywords [(''log'', b)] f = Inl TypeError
   \<and> decorate_with_keywords [] f = Inl TypeError
   \<and> suppress_exceptions (Some f) [(''log'', False)] = Inr (Wrapper f)
   \<and> suppress_exceptions_wrapped raising_body () (warnings, w)
       = Return None (warnings @ [OtherException ''boom''], w + 1)"
  by (simp add: decorate_with_keywords_def suppress_exceptions_def
      suppress_exceptions_wrapped_def raising_body_def)



section \<open>Runtime type checking\<close>

text \<open>
  The loop raises exactly when one of the pairs it enumerates has a type annotation
  and a value, taken by position or else by name, that is not an instance of it.
\<close>

lemma check_arguments_eq:
  "check_arguments isinst ann args kwargs ps =
     (if \<exists>p \<in> set ps. \<exists>ty v. ann (snd p) = Some (IsType ty)
            \<and> (if fst p < length args then Some (args ! fst p) else kwargs (snd p)) = Some v
            \<and> \<not> isinst v ty
      then Some TypeError else None)"
proof (induction ps)
  case Nil
  show ?case by simp
next
  case (Cons p ps)
  obtain idx name where p: "p = (idx, name)" by (cases p)
  show ?case
  proof (cases "ann name")
    case None
    with Cons.IH p show ?thesis by simp
  next
    case (Some a)
    show ?thesis
    proof (cases a)
      case NotAType
      with Some Cons.IH p show ?thesis by simp
    next
      case (IsType ty)
      show ?thesis
      proof (cases "idx < length args")
        case True
        with IsType Some Cons.IH p show ?thesis by simp
      next
        case False
        show ?thesis
        proof (cases "kwargs name")
          case None
          with False IsType Some Cons.IH p show ?thesis by simp
        next
          case (Some v)
          with False IsType \<open>ann name = Some a\<close> Cons.IH p show ?thesis by simp
        qed
      qed
    qed
  qed
qed


text \<open>
  For a target whose annotated names are all positional parameters, the value the
  loop takes is the argument that the call binds to the parameter. So the wrapper
  raises \<open>TypeError\<close>, without running the body, exactly when some annotated parameter
  is bound to an argument that is not an instance of its annotation; otherwise it
  runs the body and returns what the body returns. Parameters without annotation,
  and annotated ones that the call leaves to their defaults, are passed over.
\<close>

theorem typechecked_positional_parameters:
  assumes "\<forall>i < length (co_varnames c). \<forall>ty.
             annotations c (co_varnames c ! i) = Some (IsType ty) \<longrightarrow> i < co_argcount c"
  shows "typechecked_wrapped isinst c target args kwargs w =
           (if \<exists>i < length (co_varnames c). \<exists>ty v.
                  annotations c (co_varnames c ! i) = Some (IsType ty)
                  \<and> bound_argument c args kwargs i = Some v \<and> \<not> isinst v ty
            then Raise TypeError w else target args kwargs w)"
proof -
  let ?taken = "\<lambda>p. if fst p < length args then Some (args ! fst p) else kwargs (snd p)"
  have "(\<exists>p \<in> set (enumerate 0 (co_varnames c)). \<exists>ty v.
            annotations c (snd p) = Some (IsType ty) \<and> ?taken p = Some v \<and> \<not> isinst v ty)
        \<longleftrightarrow> (\<exists>i < length (co_varnames c). \<exists>ty v.
              annotations c (co_varnames c ! i) = Some (IsType ty)
              \<and> bound_argument c args kwargs i = Some v \<and> \<not> isinst v ty)"
    (is "?loop \<longleftrightarrow> ?bound")
  proof
    assume ?loop
    then obtain p ty v where p: "p \<in> set (enumerate 0 (co_varnames c))"
      and a: "annotations c (snd p) = Some (IsType ty)"
      and t: "?taken p = Some v" and m: "\<not> isinst v ty"
      by blast
    from p have i: "fst p < length (co_varnames c)" and n: "co_varnames c ! fst p = snd p"
      by (simp_all add: in_set_enumerate_eq)
    from a n have a': "annotations c (co_varnames c ! fst p) = Some (IsType ty)" by simp
    with assms i have "fst p < co_argcount c" by blast
    with t n have "bound_argument c args kwargs (fst p) = Some v"
      by (auto simp: bound_argument_def split: if_splits)
    with i a' m show ?bound by blast
  next
    assume ?bound
    then obtain i ty v where i: "i < length (co_varnames c)"
      and a: "annotations c (co_varnames c ! i) = Some (IsType ty)"
      and b: "bound_argument c args kwargs i = Some v" and m: "\<not> isinst v ty"
      by blast
    from assms i a have "i < co_argcount c" by blast
    with b have t: "?taken (i, co_varnames c ! i) = Some v"
      by (auto simp: bound_argument_def split: if_splits)
    from i have "(i, co_varnames c ! i) \<in> set (enumerate 0 (co_varnames c))"
      by (simp add: in_set_enumerate_eq)
    with a t m show ?loop by force
  qed
  then have eq: "?loop \<longleftrightarrow> ?bound" .
  show ?thesis
  proof (cases ?bound)
    case True
    with eq have ?loop by (rule iffD2)
    then have "check_arguments isinst (annotations c) args kwargs (enumerate 0 (co_varnames c))
                 = Some TypeError"
      unfolding check_arguments_eq by (rule if_P)
    then have "typechecked_wrapped isinst c target args kwargs w = Raise TypeError w"
      by (simp add: typechecked_wrapped_def)
    with True show ?thesis by (simp only: if_True)
  next
    case False
    with eq have "\<not> ?loop" by blast
    then have "check_arguments isinst (annotations c) args kwargs (enumerate 0 (co_varnames c))
                 = None"
      unfolding check_arguments_eq by (rule if_not_P)
    then have "typechecked_wrapped isinst c target args kwargs w = target args kwargs w"
      by (simp add: typechecked_wrapped_def)
    with False show ?thesis by (simp only: if_False)
  qed
qed

lemma fn_code_positional:
  "\<forall>i < length (co_varnames fn_code). \<forall>ty.
     annotations fn_code (co_varnames fn_code ! i) = Some (IsType ty) \<longrightarrow> i < co_argcount fn_code"
  by (simp add: fn_code_def)

text \<open>
  The spec's example, \<open>fn(a: int)\<close>: \<open>fn("x")\<close> and \<open>fn(a="x")\<close> raise, \<open>fn(1)\<close> runs
  the body, and so does \<open>fn()\<close> as far as the wrapper is concerned.
\<close>

theorem typechecked_positional_parameters_witness:
  "typechecked_wrapped isinstance fn_code counting_body [PStr ''x''] Map.empty 0 = Raise TypeError 0
   \<and> typechecked_wrapped isinstance fn_code counting_body [PInt 1] Map.empty 0 = Return 1 1
   \<and> typechecked_wrapped isinstance fn_code counting_body [] [''a'' \<mapsto> PStr ''x''] 0
       = Raise TypeError 0
   \<and> typechecked_wrapped isinstance fn_code counting_body [] Map.empty 0 = Return 1 1"
proof -
  note inst = typechecked_positional_parameters [OF fn_code_positional, of isinstance counting_body]
  have a: "typechecked_wrapped isinstance fn_code counting_body [PStr ''x''] Map.empty 0
             = Raise TypeError 0"
    using inst [of "[PStr ''x'']" Map.empty 0]
    by (simp add: fn_code_def bound_argument_def)
  have b: "typechecked_wrapped isinstance fn_code counting_body [PInt 1] Map.empty 0 = Return 1 1"
    using inst [of "[PInt 1]" Map.empty 0]
    by (simp add: fn_code_def bound_argument_def counting_body_def)
  have c: "typechecked_wrapped isinstance fn_code counting_body [] [''a'' \<mapsto> PStr ''x''] 0
             = Raise TypeError 0"
    using inst [of "[]" "[''a'' \<mapsto> PStr ''x'']" 0]
    by (simp add: fn_code_def bound_argument_def)
  have d: "typechecked_wrapped isinstance fn_code counting_body [] Map.empty 0 = Return 1 1"
    using inst [of "[]" Map.empty 0]
    by (simp add: fn_code_def bound_argument_def counting_body_def)
  from a b c d show ?thesis by simp
qed

text \<open>
  Claim C6 says that each declared parameter with a type annotation is checked
  against its actual argument, that a mismatch raises before the body runs, and that
  the body runs when all checks pass. The code, at \<open>def f(a: int, *rest, b: str)\<close>:
  the loop takes the position of \<open>b\<close> in \<open>co_varnames\<close>, which is 1, for a position
  among the positional arguments. So \<open>f(1, 2, b='x')\<close> raises \<open>TypeError\<close> although
  \<open>a\<close> is bound to an \<open>int\<close> and \<open>b\<close> to a \<open>str\<close>, and \<open>f(1, 'x', b=5)\<close> runs the
  body although \<open>b\<close> is bound to 5, which is not a \<open>str\<close>.
\<close>

theorem typechecked_keyword_only_parameter:
  "typechecked_wrapped isinstance kwonly_code counting_body
       [PInt 1, PInt 2] [''b'' \<mapsto> PStr ''x''] 0 = Raise TypeError 0
   \<and> bound_argument kwonly_code [PInt 1, PInt 2] [''b'' \<mapsto> PStr ''x''] 0 = Some (PInt 1)
   \<and> bound_argument kwonly_code [PInt 1, PInt 2] [''b'' \<mapsto> PStr ''x''] 1 = Some (PStr ''x'')
   \<and> isinstance (PInt 1) TInt \<and> isinstance (PStr ''x'') TStr
   \<and> typechecked_wrapped isinstance kwonly_code counting_body
       [PInt 1, PStr ''x''] [''b'' \<mapsto> PInt 5] 0 = Return 1 1
   \<and> bound_argument kwonly_code [PInt 1, PStr ''x''] [''b'' \<mapsto> PInt 5] 1 = Some (PInt 5)
   \<and> \<not> isinstance (PInt 5) TStr"
  by (simp add: typechecked_wrapped_def kwonly_code_def counting_body_def bound_argument_def
      enumerate_eq_zip upt_rec)


end
